theory Spec2Isabelle
  imports Complex_Main "HOL-Library.Multiset"
begin

section \<open>Numbers\<close>

text \<open>
  The TypeScript sources compute with \<open>number\<close>, the IEEE 754 binary64 format. A finite
  double is a real of the form \<open>n * 2^q\<close> with \<open>|n| < 2^53\<close> and \<open>q \<ge> -1074\<close>, and every
  arithmetic operation returns the double nearest to the exact result, a tie going to the
  even \<open>n\<close>. \<open>double x\<close> is that nearest double of a real \<open>x\<close>: the exponent of \<open>|x|\<close>
  fixes the spacing \<open>2^q\<close> of the doubles around it (\<open>q = e - 52\<close>, and \<open>-1074\<close> in the
  subnormal range), and \<open>|x| / 2^q\<close> is rounded to an integer. Overflow to \<open>Infinity\<close>,
  \<open>NaN\<close> and the sign of zero are not represented: the model covers finite numbers whose
  results stay finite.

  A decimal constant of the source (\<open>0.7\<close>, \<open>0.01\<close>) denotes the double nearest to it.
  The operations below round their operands first, so a constant or an argument may be
  written as the exact decimal; on doubles the rounding of the operands does nothing.
\<close>

fun bitlen :: "nat \<Rightarrow> nat" where
  "bitlen n = (if n = 0 then 0 else Suc (bitlen (n div 2)))"

declare bitlen.simps [simp del]

text \<open>The exponent \<open>e\<close> of a positive real: \<open>2^e \<le> x < 2^(e+1)\<close>.\<close>

definition expo :: "real \<Rightarrow> int" where
  "expo x = (if 1 \<le> x then int (bitlen (nat \<lfloor>x\<rfloor>)) - 1
             else - int (bitlen (nat \<lceil>1 / x\<rceil> - 1)))"

text \<open>Rounding to the nearest integer, a tie to the even one; \<open>f\<close> is the floor of \<open>m\<close>.\<close>

definition round_pick :: "real \<Rightarrow> int \<Rightarrow> int" where
  "round_pick m f =
     (if m - of_int f < 1 / 2 then f
      else if 1 / 2 < m - of_int f then f + 1
      else if even f then f else f + 1)"

definition round_even :: "real \<Rightarrow> int" where
  "round_even m = round_pick m \<lfloor>m\<rfloor>"

definition scale_round :: "real \<Rightarrow> int \<Rightarrow> real" where
  "scale_round a q = of_int (round_even (a / 2 powi q)) * 2 powi q"

definition quantum :: "real \<Rightarrow> int" where
  "quantum a = max (expo a) (- 1022) - 52"

definition double :: "real \<Rightarrow> real" where
  "double x = (if x = 0 then 0 else sgn x * scale_round \<bar>x\<bar> (quantum \<bar>x\<bar>))"

text \<open>The operators \<open>+\<close>, \<open>-\<close>, \<open>*\<close>, \<open>/\<close>, \<open>Math.min\<close>, \<open>Math.max\<close>, \<open><=\<close> and \<open><\<close>.\<close>

definition fadd :: "real \<Rightarrow> real \<Rightarrow> real" where
  "fadd a b = double (double a + double b)"

definition fsub :: "real \<Rightarrow> real \<Rightarrow> real" where
  "fsub a b = double (double a - double b)"

definition fmul :: "real \<Rightarrow> real \<Rightarrow> real" where
  "fmul a b = double (double a * double b)"

definition fdiv :: "real \<Rightarrow> real \<Rightarrow> real" where
  "fdiv a b = double (double a / double b)"

definition fmin :: "real \<Rightarrow> real \<Rightarrow> real" where
  "fmin a b = min (double a) (double b)"

definition fmax :: "real \<Rightarrow> real \<Rightarrow> real" where
  "fmax a b = max (double a) (double b)"

definition fle :: "real \<Rightarrow> real \<Rightarrow> bool" where
  "fle a b \<longleftrightarrow> double a \<le> double b"

definition flt :: "real \<Rightarrow> real \<Rightarrow> bool" where
  "flt a b \<longleftrightarrow> double a < double b"

text \<open>
  \<open>Math.round\<close> returns the integer nearest to its argument, a half going upwards; it is
  exact on a double.
\<close>

definition js_round :: "real \<Rightarrow> int" where
  "js_round x = \<lfloor>double x + 1 / 2\<rfloor>"

section \<open>safetyScorer.ts: types\<close>

datatype WeatherCondition = clear | cloudy | rain | storm | fog
datatype CrimeLevel = low | medium | high
datatype LightingLevel = well_lit | partially_lit | dark
datatype RoadType = highway | main_road | residential | alley
datatype SafetyCategory = Safest_Option | Moderate_Option | Least_Safe_Option

record RouteInputData =
  routeId :: string
  distanceKm :: real
  durationMin :: real
  turnCount :: real
  roadType :: "RoadType option"
  crimeLevel :: "CrimeLevel option"
  lightingLevel :: "LightingLevel option"

record EnvironmentData =
  currentHour :: real
  weatherCondition :: WeatherCondition

record RiskFactors =
  distanceRisk :: real
  durationRisk :: real
  turnRisk :: real
  timeRisk :: real
  weatherRisk :: real
  crimeRisk :: real
  lightingRisk :: real
  roadTypeRisk :: real
  totalRawRisk :: real

section \<open>safetyScorer.ts: risk factors\<close>

definition calculateDistanceRisk :: "real \<Rightarrow> real" where
  "calculateDistanceRisk km = fmin (fdiv km 10) 1"

definition calculateDurationRisk :: "real \<Rightarrow> real" where
  "calculateDurationRisk mins = fmin (fdiv mins 30) 1"

definition calculateTurnRisk :: "real \<Rightarrow> real" where
  "calculateTurnRisk turns = fmin (fdiv turns 20) 1"

definition calculateTimeRisk :: "real \<Rightarrow> real" where
  "calculateTimeRisk hour =
     (if hour \<ge> 22 \<or> hour \<le> 5 then 1
      else if hour \<ge> 19 \<or> hour \<le> 7 then 6 / 10
      else 2 / 10)"

fun calculateWeatherRisk :: "WeatherCondition \<Rightarrow> real" where
  "calculateWeatherRisk clear = 1 / 10"
| "calculateWeatherRisk cloudy = 3 / 10"
| "calculateWeatherRisk rain = 6 / 10"
| "calculateWeatherRisk storm = 9 / 10"
| "calculateWeatherRisk fog = 9 / 10"

fun calculateCrimeRisk :: "CrimeLevel \<Rightarrow> real" where
  "calculateCrimeRisk low = 2 / 10"
| "calculateCrimeRisk medium = 5 / 10"
| "calculateCrimeRisk high = 9 / 10"

fun calculateLightingRisk :: "LightingLevel \<Rightarrow> real" where
  "calculateLightingRisk well_lit = 2 / 10"
| "calculateLightingRisk partially_lit = 5 / 10"
| "calculateLightingRisk dark = 9 / 10"

fun calculateRoadTypeRisk :: "RoadType \<Rightarrow> real" where
  "calculateRoadTypeRisk highway = 3 / 10"
| "calculateRoadTypeRisk main_road = 4 / 10"
| "calculateRoadTypeRisk residential = 6 / 10"
| "calculateRoadTypeRisk alley = 8 / 10"

section \<open>safetyScorer.ts: configuration\<close>

record Weights =
  crime :: real
  lighting :: real
  time :: real
  distance :: real
  duration :: real
  roadTypeW :: real
  weather :: real
  turn :: real

definition WEIGHTS :: Weights where
  "WEIGHTS = \<lparr>crime = 25 / 100, lighting = 15 / 100, time = 15 / 100, distance = 10 / 100,
     duration = 10 / 100, roadTypeW = 10 / 100, weather = 10 / 100, turn = 5 / 100\<rparr>"

record ScoreRange =
  min_score :: real
  max_score :: real

record ScoreRanges =
  safest :: ScoreRange
  moderate :: ScoreRange
  riskiest :: ScoreRange

definition RELATIVE_SCORE_RANGES :: ScoreRanges where
  "RELATIVE_SCORE_RANGES =
     \<lparr>safest = \<lparr>min_score = 75, max_score = 92\<rparr>,
      moderate = \<lparr>min_score = 58, max_score = 74\<rparr>,
      riskiest = \<lparr>min_score = 42, max_score = 57\<rparr>\<rparr>"

section \<open>safetyScorer.ts: helpers\<close>

definition getSafetyCategory :: "int \<Rightarrow> int \<Rightarrow> SafetyCategory" where
  "getSafetyCategory rank totalRoutes =
     (if totalRoutes = 1 then Safest_Option
      else if rank = 1 then Safest_Option
      else if rank = totalRoutes then Least_Safe_Option
      else Moderate_Option)"

text \<open>\<open>Array.prototype.join\<close> and \<open>String.prototype.includes\<close>.\<close>

fun join :: "string \<Rightarrow> string list \<Rightarrow> string" where
  "join sep [] = []"
| "join sep [x] = x"
| "join sep (x # y # ys) = x @ sep @ join sep (y # ys)"

fun starts_with :: "string \<Rightarrow> string \<Rightarrow> bool" where
  "starts_with s [] = True"
| "starts_with [] (c # cs) = False"
| "starts_with (d # ds) (c # cs) = (d = c \<and> starts_with ds cs)"

fun includes_str :: "string \<Rightarrow> string \<Rightarrow> bool" where
  "includes_str [] needle = (needle = [])"
| "includes_str (d # ds) needle = (starts_with (d # ds) needle \<or> includes_str ds needle)"

text \<open>\<open>push\<close> appends at the end of the array.\<close>

definition push_if :: "bool \<Rightarrow> string \<Rightarrow> string list \<Rightarrow> string list" where
  "push_if b s xs = (if b then xs @ [s] else xs)"

definition weather_name :: "WeatherCondition \<Rightarrow> string" where
  "weather_name w = (case w of clear \<Rightarrow> ''clear'' | cloudy \<Rightarrow> ''cloudy'' | rain \<Rightarrow> ''rain''
     | storm \<Rightarrow> ''storm'' | fog \<Rightarrow> ''fog'')"

definition generateExplanation :: "RiskFactors \<Rightarrow> int \<Rightarrow> int \<Rightarrow> EnvironmentData \<Rightarrow> string" where
  "generateExplanation rf rank totalRoutes env =
     (let parts0 =
            (if rank = 1 then [''This is the SAFEST option among available routes'']
             else if rank = totalRoutes
               then [''This route has the highest relative risk among alternatives'']
             else [''This route offers a balanced option between safety and convenience'']);
          k1 = (if fle (7 / 10) (crimeRisk rf) then [''higher crime area'']
                else if fle (crimeRisk rf) (3 / 10) then [''lower crime area''] else []);
          k2 = (if fle (7 / 10) (lightingRisk rf) then k1 @ [''limited lighting'']
                else if fle (lightingRisk rf) (3 / 10) then k1 @ [''well-lit streets''] else k1);
          k3 = (if fle (8 / 10) (timeRisk rf) then k2 @ [''late night travel'']
                else if fle (timeRisk rf) (3 / 10) then k2 @ [''daytime travel''] else k2);
          keyFactors = (if fle (7 / 10) (distanceRisk rf) then k3 @ [''longer distance'']
                else if fle (distanceRisk rf) (3 / 10) then k3 @ [''shorter distance''] else k3);
          parts = (if length keyFactors > 0
                   then parts0 @ [''Key factors: '' @ join '', '' keyFactors] else parts0)
      in join ''. '' parts @ ''.'')"

text \<open>
  The two rank highlights start with the characters U+2713 and U+26A0, written here as their
  UTF-8 bytes.
\<close>

definition generateHighlights ::
    "RiskFactors \<Rightarrow> int \<Rightarrow> int \<Rightarrow> EnvironmentData \<Rightarrow> string list" where
  "generateHighlights rf rank totalRoutes env =
     (let h0 = (if rank = 1
                  then [[CHR 0xE2, CHR 0x9C, CHR 0x93] @ '' Safest among all alternatives'']
                else if rank = totalRoutes \<and> totalRoutes > 1
                  then [[CHR 0xE2, CHR 0x9A, CHR 0xA0] @ '' Highest risk among alternatives'']
                else []);
          h1 = push_if (fle (crimeRisk rf) (3 / 10)) ''Lower crime area'' h0;
          h2 = push_if (fle (lightingRisk rf) (3 / 10)) ''Well-lit streets'' h1;
          h3 = push_if (fle (timeRisk rf) (3 / 10)) ''Safe travel time'' h2;
          h4 = push_if (fle (roadTypeRisk rf) (4 / 10)) ''Main roads preferred'' h3;
          h5 = push_if (fle (weatherRisk rf) (2 / 10)) ''Clear weather conditions'' h4;
          h6 = push_if (fle (turnRisk rf) (3 / 10)) ''Straightforward route'' h5;
          h7 = push_if (fle (distanceRisk rf) (3 / 10)) ''Short distance'' h6;
          h8 = push_if (fle (7 / 10) (crimeRisk rf)) ''Higher crime area - stay alert'' h7;
          h9 = push_if (fle (7 / 10) (lightingRisk rf)) ''Limited street lighting'' h8;
          h10 = push_if (fle (8 / 10) (timeRisk rf)) ''Late night travel'' h9;
          h11 = push_if (fle (7 / 10) (roadTypeRisk rf)) ''Includes narrow streets/alleys'' h10;
          h12 = push_if (fle (7 / 10) (weatherRisk rf))
                  (weather_name (weatherCondition env) @ '' weather advisory'') h11;
          highlights =
            (if length h12 < 3
             then (let f1 = push_if (\<not> list_ex (\<lambda>h. includes_str h ''traffic'') h12)
                              ''Moderate traffic expected'' h12
                   in push_if (\<not> list_ex (\<lambda>h. includes_str h ''conditions'') f1)
                        ''Standard route conditions'' f1)
             else h12)
      in take 5 highlights)"

definition generateRecommendations :: "RiskFactors \<Rightarrow> int \<Rightarrow> int \<Rightarrow> string list" where
  "generateRecommendations rf rank totalRoutes =
     (let r0 = [''Share your live location with trusted contacts''];
          r1 = (if rank = 1 then r0 @ [''This is your safest option - recommended'']
                else if rank = totalRoutes \<and> totalRoutes > 1
                  then r0 @ [''Consider the safest alternative if possible'']
                else r0);
          r2 = (if fle (8 / 10) (timeRisk rf)
                then r1 @ [''Consider traveling with a companion at night'',
                           ''Keep your phone charged and accessible'']
                else r1);
          r3 = push_if (fle (7 / 10) (crimeRisk rf)) ''Stay on well-populated streets'' r2;
          r4 = push_if (fle (7 / 10) (lightingRisk rf)) ''Stay aware of your surroundings'' r3
      in take 4 r4)"

section \<open>safetyScorer.ts: scoring\<close>

text \<open>
  \<open>calculateRawRiskScore\<close> returns the object \<open>{riskFactors, totalRisk}\<close>, here a pair.
  A missing optional field takes its default (medium, partially lit, residential).
\<close>

definition calculateRawRiskScore ::
    "RouteInputData \<Rightarrow> EnvironmentData \<Rightarrow> RiskFactors \<times> real" where
  "calculateRawRiskScore route env =
     (let crimeLevel' = (case crimeLevel route of None \<Rightarrow> medium | Some c \<Rightarrow> c);
          lightingLevel' = (case lightingLevel route of None \<Rightarrow> partially_lit | Some l \<Rightarrow> l);
          roadType' = (case roadType route of None \<Rightarrow> residential | Some t \<Rightarrow> t);
          rf = \<lparr>distanceRisk = calculateDistanceRisk (distanceKm route),
                durationRisk = calculateDurationRisk (durationMin route),
                turnRisk = calculateTurnRisk (turnCount route),
                timeRisk = calculateTimeRisk (currentHour env),
                weatherRisk = calculateWeatherRisk (weatherCondition env),
                crimeRisk = calculateCrimeRisk crimeLevel',
                lightingRisk = calculateLightingRisk lightingLevel',
                roadTypeRisk = calculateRoadTypeRisk roadType',
                totalRawRisk = 0\<rparr>;
          totalRisk =
            fadd (fadd (fadd (fadd (fadd (fadd (fadd
              (fmul (crimeRisk rf) (crime WEIGHTS))
              (fmul (lightingRisk rf) (lighting WEIGHTS)))
              (fmul (timeRisk rf) (time WEIGHTS)))
              (fmul (distanceRisk rf) (distance WEIGHTS)))
              (fmul (durationRisk rf) (duration WEIGHTS)))
              (fmul (roadTypeRisk rf) (roadTypeW WEIGHTS)))
              (fmul (weatherRisk rf) (weather WEIGHTS)))
              (fmul (turnRisk rf) (turn WEIGHTS))
      in (rf\<lparr>totalRawRisk := totalRisk\<rparr>, totalRisk))"

text \<open>
  \<open>Math.min(...xs)\<close> and \<open>Math.max(...xs)\<close> of an empty array are \<open>Infinity\<close> and
  \<open>-Infinity\<close>, so the spread of an empty array is \<open>-Infinity\<close>, below 0.01: the empty
  case takes the fixed position 0.7.
\<close>

definition calculateRelativeScore :: "int \<Rightarrow> int \<Rightarrow> real \<Rightarrow> real list \<Rightarrow> int" where
  "calculateRelativeScore rank totalRoutes rawRisk allRawRisks =
     (if totalRoutes = 1
      then js_round (fmax 55 (fmin 90 (fadd (fmul (fsub 1 rawRisk) 100) 15)))
      else
        (let scoreRange =
               (if rank = 1 then safest RELATIVE_SCORE_RANGES
                else if rank = totalRoutes then riskiest RELATIVE_SCORE_RANGES
                else moderate RELATIVE_SCORE_RANGES);
             positionInRange =
               (case map double allRawRisks of
                  [] \<Rightarrow> 7 / 10
                | r # rs \<Rightarrow>
                    (let minRisk = fold min rs r;
                         maxRisk = fold max rs r;
                         riskSpread = fsub maxRisk minRisk
                     in if flt riskSpread (1 / 100) then 7 / 10
                        else (let normalizedRisk = fdiv (fsub rawRisk minRisk) riskSpread
                              in fsub 1 normalizedRisk)));
             score = fadd (min_score scoreRange)
                       (fmul (fsub (max_score scoreRange) (min_score scoreRange))
                          positionInRange)
         in js_round score))"

record SafetyResult =
  routeId :: string
  safetyScore :: int
  rawRiskScore :: int
  safetyCategory :: SafetyCategory
  explanation :: string
  riskFactors :: RiskFactors
  highlights :: "string list"
  recommendations :: "string list"
  rank :: int
  isRelativeScore :: bool

text \<open>\<open>Array.prototype.findIndex\<close>: the first index whose element satisfies the test, or -1.\<close>

fun findIndexFrom :: "int \<Rightarrow> ('a \<Rightarrow> bool) \<Rightarrow> 'a list \<Rightarrow> int" where
  "findIndexFrom i p [] = - 1"
| "findIndexFrom i p (x # xs) = (if p x then i else findIndexFrom (i + 1) p xs)"

definition findIndex :: "('a \<Rightarrow> bool) \<Rightarrow> 'a list \<Rightarrow> int" where
  "findIndex p xs = findIndexFrom 0 p xs"

text \<open>
  \<open>routeRisks\<close> holds the objects \<open>{route, riskFactors, totalRisk}\<close>, here triples.
  \<open>Array.prototype.sort\<close> is stable, and so is \<open>sort_key\<close>: with the comparator
  \<open>a.totalRisk - b.totalRisk\<close> it orders by ascending \<open>totalRisk\<close> and keeps the input
  order of equal keys.
\<close>

type_synonym RouteRisk = "RouteInputData \<times> RiskFactors \<times> real"

definition route_of :: "RouteRisk \<Rightarrow> RouteInputData" where
  "route_of r = fst r"

definition totalRisk_of :: "RouteRisk \<Rightarrow> real" where
  "totalRisk_of r = snd (snd r)"

definition routeRisksOf :: "RouteInputData list \<Rightarrow> EnvironmentData \<Rightarrow> RouteRisk list" where
  "routeRisksOf routes env = map (\<lambda>route. (route, calculateRawRiskScore route env)) routes"

definition scoreOne ::
    "EnvironmentData \<Rightarrow> int \<Rightarrow> RouteRisk list \<Rightarrow> real list \<Rightarrow> RouteRisk \<Rightarrow> SafetyResult" where
  "scoreOne env n sortedByRisk allRawRisks rr =
     (case rr of (route, rf, totalRisk) \<Rightarrow>
        (let rank' = findIndex (\<lambda>r. RouteInputData.routeId (route_of r)
                                       = RouteInputData.routeId route) sortedByRisk + 1;
             safetyScore' = calculateRelativeScore rank' n totalRisk allRawRisks;
             safetyCategory' = getSafetyCategory rank' n;
             explanation' = generateExplanation rf rank' n env;
             highlights' = generateHighlights rf rank' n env;
             recommendations' = generateRecommendations rf rank' n
         in \<lparr>routeId = RouteInputData.routeId route,
             safetyScore = safetyScore',
             rawRiskScore = js_round (fmul totalRisk 100),
             safetyCategory = safetyCategory',
             explanation = explanation',
             riskFactors = rf,
             highlights = highlights',
             recommendations = recommendations',
             rank = rank',
             isRelativeScore = True\<rparr>))"

definition calculateMultipleRoutesSafety ::
    "RouteInputData list \<Rightarrow> EnvironmentData \<Rightarrow> SafetyResult list" where
  "calculateMultipleRoutesSafety routes env =
     (if length routes = 0 then []
      else
        (let routeRisks = routeRisksOf routes env;
             sortedByRisk = sort_key totalRisk_of routeRisks;
             allRawRisks = map totalRisk_of routeRisks
         in map (scoreOne env (int (length routes)) sortedByRisk allRawRisks) routeRisks))"

definition calculateRouteSafetyScore :: "RouteInputData \<Rightarrow> EnvironmentData \<Rightarrow> SafetyResult" where
  "calculateRouteSafetyScore route env = hd (calculateMultipleRoutesSafety [route] env)"

section \<open>Community feedback service: grid identifiers\<close>

text \<open>
  \<open>Number.prototype.toFixed(2)\<close> for a double of magnitude below \<open>10^21\<close>: the sign, then
  the integer \<open>n\<close> nearest to \<open>100 * |x|\<close> for the exact value \<open>x\<close> of the double (the
  larger one at a tie), written in decimal with at least three digits and a point before
  the last two.
\<close>

fun digits :: "nat \<Rightarrow> string" where
  "digits n = (if n < 10 then [''0123456789'' ! n]
               else digits (n div 10) @ [''0123456789'' ! (n mod 10)])"

declare digits.simps [simp del]

definition toFixed2 :: "real \<Rightarrow> string" where
  "toFixed2 x =
     (let s = (if double x < 0 then ''-'' else []);
          n = nat \<lfloor>\<bar>double x\<bar> * 100 + 1 / 2\<rfloor>;
          m = digits n;
          m' = replicate (3 - length m) (CHR ''0'') @ m;
          k = length m' - 2
      in s @ take k m' @ ''.'' @ drop k m')"

definition getGridId :: "real \<Rightarrow> real \<Rightarrow> string" where
  "getGridId latitude longitude =
     (let lat = fdiv (real_of_int (js_round (fmul latitude 100))) 100;
          lng = fdiv (real_of_int (js_round (fmul longitude 100))) 100
      in toFixed2 lat @ ''_'' @ toFixed2 lng)"

section \<open>Community feedback service: the document store\<close>

text \<open>
  Timestamps are milliseconds since the epoch, as \<open>toDate().getTime()\<close> and
  \<open>new Date().getTime()\<close> give them, and counts are integers. A \<open>getDoc\<close> either throws
  or yields a snapshot that exists or not: the store is read through the outcome of
  \<open>getDoc\<close> at each document id.
\<close>

record AreaSafetyData =
  safeCount :: int
  unsafeCount :: int
  lastUpdated :: "int option"

record UserGridFeedback =
  lastSubmittedAt :: int

datatype store_error = StoreError

record Firestore =
  areas :: "string \<Rightarrow> store_error + AreaSafetyData option"
  userGridFeedbacks :: "string \<Rightarrow> store_error + UserGridFeedback option"

definition calculateAreaSafetyScore :: "int \<Rightarrow> int \<Rightarrow> int" where
  "calculateAreaSafetyScore safeCount' unsafeCount' =
     (let total = fadd (real_of_int safeCount') (real_of_int unsafeCount')
      in if total = 0 then 50
         else js_round (fmul (fdiv (real_of_int safeCount') total) 100))"

record Eligibility =
  canSubmit :: bool
  hoursRemaining :: "int option"

text \<open>
  The elapsed time is a difference of two integer millisecond counts; its quotient by
  3600000 is taken exactly.
\<close>

definition canUserSubmitFeedback :: "Firestore \<Rightarrow> int \<Rightarrow> string \<Rightarrow> string \<Rightarrow> Eligibility" where
  "canUserSubmitFeedback db now userId gridId =
     (let feedbackDocId = userId @ ''_'' @ gridId
      in case userGridFeedbacks db feedbackDocId of
           Inl err \<Rightarrow> \<lparr>canSubmit = False, hoursRemaining = Some 24\<rparr>
         | Inr None \<Rightarrow> \<lparr>canSubmit = True, hoursRemaining = None\<rparr>
         | Inr (Some data) \<Rightarrow>
             (let lastSubmitted = lastSubmittedAt data;
                  hoursSinceLastSubmit = real_of_int (now - lastSubmitted) / (1000 * 60 * 60)
              in if hoursSinceLastSubmit \<ge> 24 then \<lparr>canSubmit = True, hoursRemaining = None\<rparr>
                 else \<lparr>canSubmit = False,
                       hoursRemaining = Some \<lceil>24 - hoursSinceLastSubmit\<rceil>\<rparr>))"

definition getAreaSafetyData :: "Firestore \<Rightarrow> string \<Rightarrow> AreaSafetyData option" where
  "getAreaSafetyData db gridId =
     (case areas db gridId of
        Inl err \<Rightarrow> None
      | Inr None \<Rightarrow> None
      | Inr (Some d) \<Rightarrow> Some d)"

definition getAreaSafetyScore :: "Firestore \<Rightarrow> string \<Rightarrow> int" where
  "getAreaSafetyScore db gridId =
     (case getAreaSafetyData db gridId of
        None \<Rightarrow> 50
      | Some d \<Rightarrow> calculateAreaSafetyScore (safeCount d) (unsafeCount d))"

text \<open>
  \<open>[...new Set(xs)]\<close> keeps the first occurrence of each element, in order. A \<open>Map\<close> is a
  list of entries in insertion order; \<open>set\<close> overwrites the entry of a key that is present
  and appends a new one otherwise.
\<close>

definition unique :: "'a list \<Rightarrow> 'a list" where
  "unique xs = fold (\<lambda>x acc. if x \<in> set acc then acc else acc @ [x]) xs []"

fun map_set :: "'k \<Rightarrow> 'v \<Rightarrow> ('k \<times> 'v) list \<Rightarrow> ('k \<times> 'v) list" where
  "map_set k v [] = [(k, v)]"
| "map_set k v (e # es) = (if fst e = k then (k, v) # es else e # map_set k v es)"

definition getMultipleAreaSafetyScores :: "Firestore \<Rightarrow> string list \<Rightarrow> (string \<times> int) list" where
  "getMultipleAreaSafetyScores db gridIds =
     (let uniqueGridIds = unique gridIds
      in fold (\<lambda>gridId scores. map_set gridId (getAreaSafetyScore db gridId) scores)
           uniqueGridIds [])"

record Point =
  lat :: real
  lng :: real

record RouteCommunityScore =
  score :: int
  coveredGrids :: int
  totalGrids :: int

definition calculateRouteCommunityScore :: "Firestore \<Rightarrow> Point list \<Rightarrow> RouteCommunityScore" where
  "calculateRouteCommunityScore db routePoints =
     (if length routePoints = 0 then \<lparr>score = 50, coveredGrids = 0, totalGrids = 0\<rparr>
      else
        (let gridIds = map (\<lambda>point. getGridId (lat point) (lng point)) routePoints;
             uniqueGridIds = unique gridIds;
             scores = getMultipleAreaSafetyScores db uniqueGridIds;
             totals = fold (\<lambda>entry acc.
                             (fst acc + snd entry,
                              if snd entry \<noteq> 50 then snd acc + 1 else snd acc))
                        scores (0, 0);
             totalScore = fst totals;
             gridsWithData = snd totals;
             averageScore =
               (if length uniqueGridIds > 0
                then js_round (fdiv (real_of_int totalScore) (real (length uniqueGridIds)))
                else 50)
         in \<lparr>score = averageScore, coveredGrids = gridsWithData,
             totalGrids = int (length uniqueGridIds)\<rparr>))"

section \<open>A batch of three routes\<close>

text \<open>
  Three routes that differ in distance only, with every optional field missing, scored at
  20:00 under a cloudy sky.
\<close>

definition three_routes :: "RouteInputData list" where
  "three_routes =
     [\<lparr>RouteInputData.routeId = ''a'', distanceKm = 4, durationMin = 15, turnCount = 10,
       roadType = None, crimeLevel = None, lightingLevel = None\<rparr>,
      \<lparr>RouteInputData.routeId = ''b'', distanceKm = 5, durationMin = 15, turnCount = 10,
       roadType = None, crimeLevel = None, lightingLevel = None\<rparr>,
      \<lparr>RouteInputData.routeId = ''c'', distanceKm = 6, durationMin = 15, turnCount = 10,
       roadType = None, crimeLevel = None, lightingLevel = None\<rparr>]"

definition evening :: EnvironmentData where
  "evening = \<lparr>currentHour = 20, weatherCondition = cloudy\<rparr>"

section \<open>Order of a stable sort\<close>

text \<open>
  The position of the first occurrence of an element in a list, and the order a stable
  ascending sort by the key \<open>f\<close> puts the elements of \<open>xs\<close> in: by key first, by position in
  \<open>xs\<close> among equal keys.
\<close>

definition index_of :: "'a list \<Rightarrow> 'a \<Rightarrow> nat" where
  "index_of xs a = length (takeWhile (\<lambda>y. y \<noteq> a) xs)"

definition stable_before :: "('a \<Rightarrow> real) \<Rightarrow> 'a list \<Rightarrow> 'a \<Rightarrow> 'a \<Rightarrow> bool" where
  "stable_before f xs a b \<longleftrightarrow> f a < f b \<or> (f a = f b \<and> index_of xs a < index_of xs b)"

section \<open>Time of day\<close>

text \<open>
  C7 (as amended). For every integer hour from 0 to 23 the time risk is 1.0 when the hour is
  at least 22 or at most 5, otherwise 0.6 when it is at least 19 or at most 7, otherwise 0.2.
  Hours 6 and 7 both fall into the 0.6 branch; hour 8 is the first daytime hour with 0.2.
\<close>

theorem calculateTimeRisk_table:
  fixes h :: int
  assumes "0 \<le> h" and "h \<le> 23"
  shows "calculateTimeRisk (of_int h) =
           (if h \<ge> 22 \<or> h \<le> 5 then 1 else if h \<ge> 19 \<or> h \<le> 7 then 6 / 10 else 2 / 10)
         \<and> calculateTimeRisk (of_int h) =
           (if h \<in> {0, 1, 2, 3, 4, 5, 22, 23} then 1
            else if h \<in> {6, 7, 19, 20, 21} then 6 / 10 else 2 / 10)"
proof -
  have a: "calculateTimeRisk (of_int h) =
      (if h \<ge> 22 \<or> h \<le> 5 then 1 else if h \<ge> 19 \<or> h \<le> 7 then 6 / 10 else 2 / 10)"
    by (simp add: calculateTimeRisk_def)
  have b: "h \<in> {0, 1, 2, 3, 4, 5, 22, 23} \<longleftrightarrow> h \<ge> 22 \<or> h \<le> 5"
    using assms by (simp; arith)
  have c: "h \<in> {6, 7, 19, 20, 21} \<longleftrightarrow> (h \<ge> 19 \<or> h \<le> 7) \<and> \<not> (h \<ge> 22 \<or> h \<le> 5)"
    by (simp; arith)
  show ?thesis
    unfolding a b c by simp
qed

theorem calculateTimeRisk_table_witness:
  "calculateTimeRisk 7 = 6 / 10 \<and> calculateTimeRisk 6 = 6 / 10 \<and> calculateTimeRisk 8 = 2 / 10"
  using calculateTimeRisk_table [of 7] calculateTimeRisk_table [of 6]
    calculateTimeRisk_table [of 8]
  by simp

text \<open>
  C7 as written says that hour 6 does not fall into the 0.6 branch. It does: 6 is neither
  at least 22 nor at most 5, and it is at most 7.
\<close>

theorem calculateTimeRisk_six_counterexample:
  "\<not> (calculateTimeRisk 7 = 6 / 10 \<and> calculateTimeRisk 6 \<noteq> 6 / 10)"
  by (simp add: calculateTimeRisk_def)

section \<open>Rounding to a double\<close>

lemma bitlen_0: "bitlen 0 = 0"
  by (simp add: bitlen.simps)

lemma bitlen_pos: "0 < n \<Longrightarrow> bitlen n = Suc (bitlen (n div 2))"
  by (subst bitlen.simps) simp

lemma bitlen_bounds: "0 < n \<Longrightarrow> 2 ^ (bitlen n - 1) \<le> n \<and> n < 2 ^ bitlen n"
proof (induction n rule: bitlen.induct)
  case (1 n)
  have b: "bitlen n = Suc (bitlen (n div 2))" using "1.prems" by (rule bitlen_pos)
  show ?case
  proof (cases "n div 2 = 0")
    case True
    then have n1: "n = 1" using "1.prems" by (simp add: div_eq_0_iff)
    show ?thesis unfolding n1 by (simp add: bitlen_pos bitlen_0)
  next
    case False
    then have p: "0 < n div 2" by simp
    have ih: "2 ^ (bitlen (n div 2) - 1) \<le> n div 2 \<and> n div 2 < 2 ^ bitlen (n div 2)"
      using "1.IH" "1.prems" p by simp
    have bp: "0 < bitlen (n div 2)" using p by (simp add: bitlen_pos)
    then obtain c where c: "bitlen (n div 2) = Suc c" by (cases "bitlen (n div 2)") auto
    have lo: "(2::nat) ^ Suc c \<le> n"
    proof -
      have "(2::nat) ^ Suc c = 2 * 2 ^ c" by simp
      also have "\<dots> \<le> 2 * (n div 2)" using ih c by simp
      also have "\<dots> \<le> n" by simp
      finally show ?thesis .
    qed
    have hi: "n < 2 ^ Suc (Suc c)"
    proof -
      have "n div 2 + 1 \<le> 2 ^ Suc c" using ih c by simp
      then have "2 * (n div 2) + 2 \<le> 2 * 2 ^ Suc c" by simp
      moreover have "n < 2 * (n div 2) + 2" by linarith
      ultimately show ?thesis by simp
    qed
    show ?thesis using lo hi by (simp add: b c)
  qed
qed

lemma two_powi_less_cancel: "(2::real) powi a < 2 powi b \<Longrightarrow> a < b"
proof (rule ccontr)
  assume l: "(2::real) powi a < 2 powi b" and "\<not> a < b"
  then have "b \<le> a" by simp
  then have "(2::real) powi b \<le> 2 powi a" by (intro power_int_increasing) simp_all
  then show False using l by simp
qed

lemma two_powi_add: "(2::real) powi (a + b) = 2 powi a * 2 powi b"
  by (rule power_int_add) simp

lemma two_powi_diff: "(2::real) powi (a - b) = 2 powi a / 2 powi b"
  by (rule power_int_diff) simp

lemma two_powi_int: "0 \<le> k \<Longrightarrow> (2::real) powi k = of_int (2 ^ nat k)"
  by (simp add: power_int_nonneg_exp)

lemma expo_bounds:
  assumes "0 < x"
  shows "2 powi (expo x) \<le> x \<and> x < 2 powi (expo x + 1)"
proof (cases "1 \<le> x")
  case True
  define n where "n = nat \<lfloor>x\<rfloor>"
  have n1: "0 < n" using True by (simp add: n_def)
  note b = bitlen_bounds [OF n1]
  have bp: "0 < bitlen n" using n1 by (simp add: bitlen_pos)
  have e: "expo x = int (bitlen n) - 1" using True by (simp add: expo_def n_def)
  have nx: "real n \<le> x" using True by (simp add: n_def)
  have xn: "x < real n + 1" using True by (simp add: n_def)
  have "(2::real) powi (int (bitlen n) - 1) = 2 ^ (bitlen n - 1)"
    using bp by (simp add: power_int_nonneg_exp nat_diff_distrib')
  also have "\<dots> = real (2 ^ (bitlen n - 1))" by simp
  also have "\<dots> \<le> real n" using b by (simp only: of_nat_le_iff)
  finally have lo: "(2::real) powi (int (bitlen n) - 1) \<le> x" using nx by simp
  have "n + 1 \<le> 2 ^ bitlen n" using b by simp
  then have "real (n + 1) \<le> real (2 ^ bitlen n)" by (simp only: of_nat_le_iff)
  then have "x < 2 ^ bitlen n" using xn by simp
  then have hi: "x < (2::real) powi (int (bitlen n) - 1 + 1)" by simp
  show ?thesis unfolding e using lo hi by simp
next
  case False
  then have x1: "x < 1" by simp
  define c where "c = nat \<lceil>1 / x\<rceil>"
  have inv: "1 < 1 / x" using assms x1 by simp
  then have "1 < \<lceil>1 / x\<rceil>" by (simp add: less_ceiling_iff)
  then have c2: "2 \<le> c" unfolding c_def by linarith
  then have c1: "0 < c - 1" by simp
  note b = bitlen_bounds [OF c1]
  define k where "k = bitlen (c - 1)"
  have kp: "0 < k" using c1 by (simp add: k_def bitlen_pos)
  have e: "expo x = - int k" using False by (simp add: expo_def c_def k_def)
  have up: "1 / x \<le> real c"
    using inv by (simp add: c_def) 
  have lowc: "real c - 1 < 1 / x"
  proof -
    have "real_of_int \<lceil>1 / x\<rceil> - 1 < 1 / x" by linarith
    moreover have "real c = real_of_int \<lceil>1 / x\<rceil>" using c2 by (simp add: c_def)
    ultimately show ?thesis by simp
  qed
  have "c \<le> 2 ^ k" using b c2 unfolding k_def by linarith
  then have "real c \<le> 2 ^ k" by (metis of_nat_le_iff of_nat_numeral of_nat_power)
  then have "1 / x \<le> 2 ^ k" using up by linarith
  then have lo: "1 / 2 ^ k \<le> x"
    using assms by (simp add: field_simps)
  have "2 ^ (k - 1) \<le> c - 1" using b unfolding k_def by (rule conjunct1)
  then have "real (2 ^ (k - 1)) \<le> real (c - 1)" by (simp only: of_nat_le_iff)
  then have "(2::real) ^ (k - 1) \<le> real c - 1" using c2 by (simp add: of_nat_diff)
  then have "2 ^ (k - 1) < 1 / x" using lowc by simp
  then have hi: "x < 1 / 2 ^ (k - 1)"
    using assms by (simp add: field_simps)
  have p1: "(2::real) powi (- int k) = 1 / 2 ^ k"
    by (simp add: power_int_minus_divide)
  have p2: "(2::real) powi (- int k + 1) = 1 / 2 ^ (k - 1)"
  proof -
    have "- int k + 1 = - int (k - 1)" using kp by simp
    then show ?thesis by (simp only: power_int_minus_divide power_int_of_nat)
  qed
  show ?thesis unfolding e p1 p2 using lo hi by simp
qed

lemma expo_unique:
  assumes "0 < x" and "2 powi a \<le> x" and "x < 2 powi (a + 1)"
  shows "expo x = a"
proof -
  note b = expo_bounds [OF assms(1)]
  have "(2::real) powi (expo x) < 2 powi (a + 1)" using b assms(3) by simp
  then have "expo x < a + 1" by (rule two_powi_less_cancel)
  moreover have "(2::real) powi a < 2 powi (expo x + 1)" using b assms(2) by simp
  then have "a < expo x + 1" by (rule two_powi_less_cancel)
  ultimately show ?thesis by simp
qed

lemma expo_mono:
  assumes "0 < x" and "x \<le> y"
  shows "expo x \<le> expo y"
proof -
  have y: "0 < y" using assms by simp
  have "(2::real) powi (expo x) < 2 powi (expo y + 1)"
    using expo_bounds [OF assms(1)] expo_bounds [OF y] assms(2) by simp
  then have "expo x < expo y + 1" by (rule two_powi_less_cancel)
  then show ?thesis by simp
qed

lemma round_pick_range: "round_pick m f = f \<or> round_pick m f = f + 1"
  by (simp add: round_pick_def)

lemma round_even_of_int: "round_even (of_int k) = k"
  by (simp add: round_even_def round_pick_def)

lemma round_even_mono:
  assumes "a \<le> b"
  shows "round_even a \<le> round_even b"
proof -
  have fl: "\<lfloor>a\<rfloor> \<le> \<lfloor>b\<rfloor>" using assms by (rule floor_mono)
  show ?thesis
  proof (cases "\<lfloor>a\<rfloor> = \<lfloor>b\<rfloor>")
    case True
    have "a - of_int \<lfloor>b\<rfloor> \<le> b - of_int \<lfloor>b\<rfloor>" using assms by simp
    then show ?thesis
      unfolding round_even_def True round_pick_def by auto
  next
    case False
    then have "\<lfloor>a\<rfloor> + 1 \<le> \<lfloor>b\<rfloor>" using fl by simp
    moreover have "round_even a \<le> \<lfloor>a\<rfloor> + 1"
      using round_pick_range [of a "\<lfloor>a\<rfloor>"] by (auto simp add: round_even_def)
    moreover have "\<lfloor>b\<rfloor> \<le> round_even b"
      using round_pick_range [of b "\<lfloor>b\<rfloor>"] by (auto simp add: round_even_def)
    ultimately show ?thesis by simp
  qed
qed

lemma round_even_ge: "of_int k \<le> m \<Longrightarrow> k \<le> round_even m"
  using round_even_mono [of "of_int k" m] by (simp add: round_even_of_int)

lemma round_even_le: "m \<le> of_int k \<Longrightarrow> round_even m \<le> k"
  using round_even_mono [of m "of_int k"] by (simp add: round_even_of_int)

lemma scale_round_mono: "a \<le> b \<Longrightarrow> scale_round a q \<le> scale_round b q"
  unfolding scale_round_def
  by (intro mult_right_mono) (simp_all add: round_even_mono divide_right_mono)

lemma scale_round_exact:
  assumes "a = of_int n * 2 powi q"
  shows "scale_round a q = a"
proof -
  have "a / 2 powi q = of_int n" unfolding assms by simp
  then show ?thesis unfolding scale_round_def by (simp add: round_even_of_int assms)
qed

lemma scale_round_nonneg: "0 \<le> a \<Longrightarrow> 0 \<le> scale_round a q"
  unfolding scale_round_def
  by (intro mult_nonneg_nonneg) (simp_all add: round_even_ge)

lemma double_pos: "0 < x \<Longrightarrow> double x = scale_round x (quantum x)"
  by (simp add: double_def)

lemma double_0: "double 0 = 0"
  by (simp add: double_def)

lemma double_minus: "double (- x) = - double x"
  by (simp add: double_def sgn_minus)

lemma quantum_mono: "0 < x \<Longrightarrow> x \<le> y \<Longrightarrow> quantum x \<le> quantum y"
  unfolding quantum_def using expo_mono [of x y] by simp

text \<open>A positive number rounds to at most the top of its binade and, when normal, to at least
  the bottom of it.\<close>

lemma scale_round_upper:
  assumes "0 < x"
  shows "scale_round x (quantum x) \<le> 2 powi (quantum x + 53)"
proof -
  let ?q = "quantum x"
  have "expo x + 1 \<le> ?q + 53" by (simp add: quantum_def)
  then have "(2::real) powi (expo x + 1) \<le> 2 powi (?q + 53)"
    by (intro power_int_increasing) simp_all
  then have "x \<le> 2 powi (?q + 53)" using expo_bounds [OF assms] by simp
  then have "scale_round x ?q \<le> scale_round (2 powi (?q + 53)) ?q"
    by (rule scale_round_mono)
  also have "scale_round (2 powi (?q + 53)) ?q = 2 powi (?q + 53)"
  proof (rule scale_round_exact)
    show "(2::real) powi (?q + 53) = real_of_int (2 ^ 53) * 2 powi ?q"
      by (simp add: two_powi_add mult.commute)
  qed
  finally show ?thesis .
qed

lemma scale_round_lower:
  assumes "0 < x" and "- 1022 \<le> expo x"
  shows "2 powi (expo x) \<le> scale_round x (quantum x)"
proof -
  have q: "quantum x = expo x - 52" using assms(2) by (simp add: quantum_def)
  have "scale_round (2 powi (expo x)) (quantum x) = 2 powi (expo x)"
  proof (rule scale_round_exact)
    have "(2::real) powi (expo x) = 2 powi (52 + (expo x - 52))" by simp
    also have "\<dots> = 2 powi 52 * 2 powi (expo x - 52)" by (rule two_powi_add)
    finally show "(2::real) powi (expo x) = real_of_int (2 ^ 52) * 2 powi (quantum x)"
      unfolding q by simp
  qed
  moreover have "scale_round (2 powi (expo x)) (quantum x) \<le> scale_round x (quantum x)"
    using expo_bounds [OF assms(1)] by (intro scale_round_mono) simp
  ultimately show ?thesis by simp
qed

lemma double_nonneg: "0 \<le> x \<Longrightarrow> 0 \<le> double x"
  by (cases "x = 0") (simp_all add: double_0 double_pos scale_round_nonneg)

lemma double_mono_pos:
  assumes "0 < x" and "x \<le> y"
  shows "double x \<le> double y"
proof -
  have y: "0 < y" using assms by simp
  have qm: "quantum x \<le> quantum y" using assms by (rule quantum_mono)
  show ?thesis
  proof (cases "quantum x = quantum y")
    case True
    show ?thesis
      unfolding double_pos [OF assms(1)] double_pos [OF y] True
      using assms(2) by (rule scale_round_mono)
  next
    case False
    then have lt: "quantum x < quantum y" using qm by simp
    then have ey: "- 1022 \<le> expo y" "quantum y = expo y - 52"
      by (auto simp add: quantum_def max_def split: if_splits)
    have "quantum x + 53 \<le> expo y" using lt ey by simp
    then have "(2::real) powi (quantum x + 53) \<le> 2 powi (expo y)"
      by (intro power_int_increasing) simp_all
    then have "scale_round x (quantum x) \<le> scale_round y (quantum y)"
      using scale_round_upper [OF assms(1)] scale_round_lower [OF y ey(1)] by simp
    then show ?thesis
      unfolding double_pos [OF assms(1)] double_pos [OF y] .
  qed
qed

lemma double_mono:
  assumes "x \<le> y"
  shows "double x \<le> double y"
proof -
  consider "0 < x" | "x \<le> 0" "0 \<le> y" | "y < 0" using assms by linarith
  then show ?thesis
  proof cases
    case 1
    then show ?thesis using assms by (rule double_mono_pos)
  next
    case 2
    have "double x = - double (- x)" by (simp add: double_minus)
    moreover have "0 \<le> double (- x)" using 2(1) by (intro double_nonneg) simp
    moreover have "0 \<le> double y" using 2(2) by (rule double_nonneg)
    ultimately show ?thesis by simp
  next
    case 3
    have "double (- y) \<le> double (- x)"
      using 3 assms by (intro double_mono_pos) simp_all
    then show ?thesis by (simp add: double_minus)
  qed
qed

text \<open>Doubles are fixed points of the rounding: multiples of the spacing around them, the
  values of \<open>double\<close>, and the integers up to \<open>2^53\<close>.\<close>

lemma double_fix_pos:
  assumes "0 < x" and "x = of_int n * 2 powi (quantum x)"
  shows "double x = x"
  unfolding double_pos [OF assms(1)] using assms(2) by (rule scale_round_exact)

lemma double_fix_scaled:
  assumes "0 < x" and "x = of_int n * 2 powi q" and "quantum x \<le> q"
  shows "double x = x"
proof (rule double_fix_pos [OF assms(1)])
  have "(2::real) powi q = 2 powi (q - quantum x) * 2 powi (quantum x)"
    by (simp flip: two_powi_add)
  also have "(2::real) powi (q - quantum x) = of_int (2 ^ nat (q - quantum x))"
    using assms(3) by (intro two_powi_int) simp
  finally have "x = of_int n * (of_int (2 ^ nat (q - quantum x)) * 2 powi (quantum x))"
    using assms(2) by simp
  then show "x = of_int (n * 2 ^ nat (q - quantum x)) * 2 powi (quantum x)"
    by simp
qed

lemma double_double_pos:
  assumes "0 < x"
  shows "double (double x) = double x"
proof -
  define y where "y = double x"
  define q where "q = quantum x"
  define n where "n = round_even (x / 2 powi q)"
  have yn: "y = of_int n * 2 powi q"
    by (simp add: y_def double_pos [OF assms] scale_round_def n_def q_def)
  have y0: "0 \<le> y" unfolding y_def using assms by (intro double_nonneg) simp
  have up: "y \<le> 2 powi (q + 53)"
    unfolding y_def double_pos [OF assms] q_def by (rule scale_round_upper [OF assms])
  have qlow: "- 1074 \<le> q" by (simp add: q_def quantum_def)
  show ?thesis
  proof (cases "y = 0")
    case True
    then show ?thesis unfolding y_def [symmetric] by (simp add: double_0)
  next
    case False
    then have yp: "0 < y" using y0 by simp
    show ?thesis
    proof (cases "y = 2 powi (q + 53)")
      case True
      have e: "expo y = q + 53"
        by (rule expo_unique [OF yp]) (simp_all add: True power_int_strict_increasing)
      have qy: "quantum y = q + 1" using qlow by (simp add: quantum_def e)
      have "y = of_int (2 ^ 52) * 2 powi (q + 1)"
        unfolding True by (simp add: two_powi_add)
      then have "double y = y"
        using qy by (intro double_fix_scaled [OF yp, of "2 ^ 52" "q + 1"]) simp_all
      then show ?thesis unfolding y_def .
    next
      case False
      then have "y < 2 powi (q + 53)" using up by simp
      then have "(2::real) powi (expo y) < 2 powi (q + 53)"
        using expo_bounds [OF yp] by simp
      then have "expo y < q + 53" by (rule two_powi_less_cancel)
      then have "quantum y \<le> q" using qlow by (simp add: quantum_def)
      then have "double y = y" by (rule double_fix_scaled [OF yp yn])
      then show ?thesis unfolding y_def .
    qed
  qed
qed

lemma double_double: "double (double x) = double x"
proof -
  consider "0 < x" | "x = 0" | "x < 0" by linarith
  then show ?thesis
  proof cases
    case 1
    then show ?thesis by (rule double_double_pos)
  next
    case 2
    then show ?thesis by (simp add: double_0)
  next
    case 3
    then have "double (double (- x)) = double (- x)" by (intro double_double_pos) simp
    then show ?thesis by (simp add: double_minus)
  qed
qed

lemma double_of_int_pos:
  assumes "0 < k" and "k \<le> 2 ^ 53"
  shows "double (of_int k) = of_int k"
proof (cases "k = 2 ^ 53")
  case True
  have "double (2 ^ 53) = (2 ^ 53 :: real)"
    by (simp add: double_def quantum_def scale_round_def round_even_def round_pick_def expo_def
        bitlen_0 bitlen_pos)
  then show ?thesis unfolding True by simp
next
  case False
  then have lt: "k < 2 ^ 53" using assms(2) by simp
  have xp: "0 < real_of_int k" using assms(1) by simp
  have "(2::real) powi (expo (of_int k)) \<le> of_int k"
    using expo_bounds [OF xp] by simp
  also have "real_of_int k < of_int (2 ^ 53)" using lt by (simp only: of_int_less_iff)
  also have "real_of_int (2 ^ 53) = 2 powi 53" by simp
  finally have "expo (of_int k) < 53" by (rule two_powi_less_cancel)
  then have "quantum (of_int k) \<le> 0" by (simp add: quantum_def)
  then show ?thesis
    by (intro double_fix_scaled [OF xp, of k 0]) simp_all
qed

lemma double_of_int:
  assumes "\<bar>k\<bar> \<le> 2 ^ 53"
  shows "double (of_int k) = of_int k"
proof -
  consider "0 < k" | "k = 0" | "k < 0" by linarith
  then show ?thesis
  proof cases
    case 1
    then show ?thesis using assms by (intro double_of_int_pos) simp_all
  next
    case 2
    then show ?thesis by (simp add: double_0)
  next
    case 3
    then have "double (of_int (- k)) = of_int (- k)"
      using assms by (intro double_of_int_pos) simp_all
    then show ?thesis by (simp add: double_minus)
  qed
qed

section \<open>The arithmetic operations\<close>

lemmas double_eval = double_def quantum_def scale_round_def round_even_def round_pick_def
  expo_def bitlen_0 bitlen_pos

lemma double_int_small: "\<bar>k\<bar> \<le> 1000 \<Longrightarrow> double (of_int k) = of_int k"
  by (rule double_of_int) simp

lemma double_1: "double 1 = 1"
  using double_int_small [of 1] by simp

lemma double_numeral_small: "numeral w \<le> (1000::int) \<Longrightarrow> double (numeral w) = numeral w"
  using double_int_small [of "numeral w"] by simp

lemma double_fadd: "double (fadd a b) = fadd a b"
  by (simp add: fadd_def double_double)

lemma double_fsub: "double (fsub a b) = fsub a b"
  by (simp add: fsub_def double_double)

lemma double_fmul: "double (fmul a b) = fmul a b"
  by (simp add: fmul_def double_double)

lemma double_fdiv: "double (fdiv a b) = fdiv a b"
  by (simp add: fdiv_def double_double)

lemma double_fmin: "double (fmin a b) = fmin a b"
  by (simp add: fmin_def min_def double_double)

lemma double_fmax: "double (fmax a b) = fmax a b"
  by (simp add: fmax_def max_def double_double)

lemmas double_ops = double_double double_fadd double_fsub double_fmul double_fdiv
  double_fmin double_fmax

lemma fadd_mono:
  assumes "double a \<le> double c" and "double b \<le> double d"
  shows "fadd a b \<le> fadd c d"
  unfolding fadd_def using assms by (intro double_mono) simp

lemma fadd_nonneg:
  assumes "0 \<le> double a" and "0 \<le> double b"
  shows "0 \<le> fadd a b"
  unfolding fadd_def using assms by (intro double_nonneg) simp

lemma fmul_unit:
  assumes "0 \<le> double f" and "double f \<le> 1" and "0 \<le> double w"
  shows "0 \<le> fmul f w \<and> fmul f w \<le> double w"
proof -
  have "0 \<le> double f * double w" using assms by simp
  then have lo: "0 \<le> fmul f w" unfolding fmul_def by (rule double_nonneg)
  have "double f * double w \<le> 1 * double w"
    using assms by (intro mult_right_mono) simp_all
  then have "fmul f w \<le> double (1 * double w)" unfolding fmul_def by (rule double_mono)
  then have hi: "fmul f w \<le> double w" by (simp add: double_double)
  show ?thesis using lo hi by simp
qed

lemma fdiv_nonneg:
  assumes "0 \<le> double a" and "0 \<le> double b"
  shows "0 \<le> fdiv a b"
  unfolding fdiv_def using assms by (intro double_nonneg) simp

lemma fmin_one_unit:
  assumes "0 \<le> double a"
  shows "0 \<le> fmin a 1 \<and> fmin a 1 \<le> 1"
  using assms by (simp add: fmin_def double_1)

lemma js_round_of_int: "\<bar>k\<bar> \<le> 2 ^ 53 \<Longrightarrow> js_round (of_int k) = k"
  by (simp add: js_round_def double_of_int)

lemma js_round_mono: "double x \<le> double y \<Longrightarrow> js_round x \<le> js_round y"
  by (simp add: js_round_def floor_mono)

lemma js_round_between:
  assumes "\<bar>lo\<bar> \<le> 2 ^ 53" and "\<bar>hi\<bar> \<le> 2 ^ 53"
    and "of_int lo \<le> double x" and "double x \<le> of_int hi"
  shows "lo \<le> js_round x \<and> js_round x \<le> hi"
proof -
  have "js_round (of_int lo) \<le> js_round x"
    using assms(1,3) by (intro js_round_mono) (simp add: double_of_int)
  moreover have "js_round x \<le> js_round (of_int hi)"
    using assms(2,4) by (intro js_round_mono) (simp add: double_of_int)
  ultimately show ?thesis
    using assms(1,2) by (simp add: js_round_of_int)
qed

section \<open>Risk factors and their weighted sum\<close>

lemma weather_unit: "0 \<le> calculateWeatherRisk w \<and> calculateWeatherRisk w \<le> 1"
  by (cases w) simp_all

lemma crime_unit: "0 \<le> calculateCrimeRisk c \<and> calculateCrimeRisk c \<le> 1"
  by (cases c) simp_all

lemma lighting_unit: "0 \<le> calculateLightingRisk l \<and> calculateLightingRisk l \<le> 1"
  by (cases l) simp_all

lemma roadType_unit: "0 \<le> calculateRoadTypeRisk t \<and> calculateRoadTypeRisk t \<le> 1"
  by (cases t) simp_all

lemma time_unit: "0 \<le> calculateTimeRisk h \<and> calculateTimeRisk h \<le> 1"
  by (simp add: calculateTimeRisk_def)

lemma ratio_unit:
  assumes "0 \<le> a"
  shows "0 \<le> fmin (fdiv a (numeral w)) 1 \<and> fmin (fdiv a (numeral w)) 1 \<le> 1"
proof -
  have "0 \<le> double a" using assms by (rule double_nonneg)
  moreover have "0 \<le> double (numeral w)" by (intro double_nonneg) simp
  ultimately have "0 \<le> fdiv a (numeral w)" by (rule fdiv_nonneg)
  then have "0 \<le> double (fdiv a (numeral w))" by (simp add: double_fdiv)
  then show ?thesis by (rule fmin_one_unit)
qed

lemma double_unit:
  assumes "0 \<le> a \<and> a \<le> 1"
  shows "0 \<le> double a \<and> double a \<le> 1"
  using double_mono [of 0 a] double_mono [of a 1] assms by (simp add: double_0 double_1)

lemma weights_chain:
  "fadd (fadd (fadd (fadd (fadd (fadd (fadd (25 / 100) (15 / 100)) (15 / 100)) (10 / 100))
     (10 / 100)) (10 / 100)) (10 / 100)) (5 / 100) = 1"
  by (simp add: fadd_def double_eval)

lemma weighted_unit:
  assumes "0 \<le> a \<and> a \<le> 1" "0 \<le> b \<and> b \<le> 1" "0 \<le> c \<and> c \<le> 1" "0 \<le> d \<and> d \<le> 1"
    "0 \<le> e \<and> e \<le> 1" "0 \<le> f \<and> f \<le> 1" "0 \<le> g \<and> g \<le> 1" "0 \<le> h \<and> h \<le> 1"
  shows "0 \<le> fadd (fadd (fadd (fadd (fadd (fadd (fadd
              (fmul a (25 / 100)) (fmul b (15 / 100))) (fmul c (15 / 100))) (fmul d (10 / 100)))
              (fmul e (10 / 100))) (fmul f (10 / 100))) (fmul g (10 / 100))) (fmul h (5 / 100))
       \<and> fadd (fadd (fadd (fadd (fadd (fadd (fadd
              (fmul a (25 / 100)) (fmul b (15 / 100))) (fmul c (15 / 100))) (fmul d (10 / 100)))
              (fmul e (10 / 100))) (fmul f (10 / 100))) (fmul g (10 / 100))) (fmul h (5 / 100))
           \<le> 1"
proof -
  have w: "0 \<le> double (numeral p / numeral q)" for p q
    by (intro double_nonneg) simp
  note t = fmul_unit [OF double_unit [THEN conjunct1] double_unit [THEN conjunct2] w]
  have ta: "0 \<le> double (fmul a (25 / 100)) \<and> double (fmul a (25 / 100)) \<le> double (25 / 100)"
    unfolding double_fmul by (rule t [OF assms(1) assms(1)])
  have tb: "0 \<le> double (fmul b (15 / 100)) \<and> double (fmul b (15 / 100)) \<le> double (15 / 100)"
    unfolding double_fmul by (rule t [OF assms(2) assms(2)])
  have tc: "0 \<le> double (fmul c (15 / 100)) \<and> double (fmul c (15 / 100)) \<le> double (15 / 100)"
    unfolding double_fmul by (rule t [OF assms(3) assms(3)])
  have td: "0 \<le> double (fmul d (10 / 100)) \<and> double (fmul d (10 / 100)) \<le> double (10 / 100)"
    unfolding double_fmul by (rule t [OF assms(4) assms(4)])
  have te: "0 \<le> double (fmul e (10 / 100)) \<and> double (fmul e (10 / 100)) \<le> double (10 / 100)"
    unfolding double_fmul by (rule t [OF assms(5) assms(5)])
  have tf: "0 \<le> double (fmul f (10 / 100)) \<and> double (fmul f (10 / 100)) \<le> double (10 / 100)"
    unfolding double_fmul by (rule t [OF assms(6) assms(6)])
  have tg: "0 \<le> double (fmul g (10 / 100)) \<and> double (fmul g (10 / 100)) \<le> double (10 / 100)"
    unfolding double_fmul by (rule t [OF assms(7) assms(7)])
  have th: "0 \<le> double (fmul h (5 / 100)) \<and> double (fmul h (5 / 100)) \<le> double (5 / 100)"
    unfolding double_fmul by (rule t [OF assms(8) assms(8)])
  let ?s1 = "fadd (fmul a (25 / 100)) (fmul b (15 / 100))"
  let ?w1 = "fadd (25 / 100) (15 / 100)"
  have s1: "0 \<le> double ?s1 \<and> double ?s1 \<le> double ?w1"
    unfolding double_fadd using ta tb by (simp add: fadd_mono fadd_nonneg)
  let ?s2 = "fadd ?s1 (fmul c (15 / 100))"
  let ?w2 = "fadd ?w1 (15 / 100)"
  have s2: "0 \<le> double ?s2 \<and> double ?s2 \<le> double ?w2"
    unfolding double_fadd using s1 tc by (simp add: fadd_mono fadd_nonneg)
  let ?s3 = "fadd ?s2 (fmul d (10 / 100))"
  let ?w3 = "fadd ?w2 (10 / 100)"
  have s3: "0 \<le> double ?s3 \<and> double ?s3 \<le> double ?w3"
    unfolding double_fadd using s2 td by (simp add: fadd_mono fadd_nonneg)
  let ?s4 = "fadd ?s3 (fmul e (10 / 100))"
  let ?w4 = "fadd ?w3 (10 / 100)"
  have s4: "0 \<le> double ?s4 \<and> double ?s4 \<le> double ?w4"
    unfolding double_fadd using s3 te by (simp add: fadd_mono fadd_nonneg)
  let ?s5 = "fadd ?s4 (fmul f (10 / 100))"
  let ?w5 = "fadd ?w4 (10 / 100)"
  have s5: "0 \<le> double ?s5 \<and> double ?s5 \<le> double ?w5"
    unfolding double_fadd using s4 tf by (simp add: fadd_mono fadd_nonneg)
  let ?s6 = "fadd ?s5 (fmul g (10 / 100))"
  let ?w6 = "fadd ?w5 (10 / 100)"
  have s6: "0 \<le> double ?s6 \<and> double ?s6 \<le> double ?w6"
    unfolding double_fadd using s5 tg by (simp add: fadd_mono fadd_nonneg)
  let ?s7 = "fadd ?s6 (fmul h (5 / 100))"
  let ?w7 = "fadd ?w6 (5 / 100)"
  have s7: "0 \<le> double ?s7 \<and> double ?s7 \<le> double ?w7"
    unfolding double_fadd using s6 th by (simp add: fadd_mono fadd_nonneg)
  show ?thesis
    using s7 unfolding double_fadd weights_chain double_1 .
qed

lemma rawRisk_fields:
  "fst (calculateRawRiskScore route env) =
     \<lparr>distanceRisk = calculateDistanceRisk (distanceKm route),
      durationRisk = calculateDurationRisk (durationMin route),
      turnRisk = calculateTurnRisk (turnCount route),
      timeRisk = calculateTimeRisk (currentHour env),
      weatherRisk = calculateWeatherRisk (weatherCondition env),
      crimeRisk = calculateCrimeRisk (case crimeLevel route of None \<Rightarrow> medium | Some c \<Rightarrow> c),
      lightingRisk = calculateLightingRisk
        (case lightingLevel route of None \<Rightarrow> partially_lit | Some l \<Rightarrow> l),
      roadTypeRisk = calculateRoadTypeRisk
        (case roadType route of None \<Rightarrow> residential | Some t \<Rightarrow> t),
      totalRawRisk = snd (calculateRawRiskScore route env)\<rparr>"
  by (simp add: calculateRawRiskScore_def Let_def)

lemma rawRisk_total: "totalRawRisk (fst (calculateRawRiskScore route env)) = snd (calculateRawRiskScore route env)"
  by (simp add: calculateRawRiskScore_def Let_def)

lemma rawRisk_double:
  "double (snd (calculateRawRiskScore route env)) = snd (calculateRawRiskScore route env)"
  by (simp add: calculateRawRiskScore_def Let_def double_fadd)

text \<open>
  C3. For a route with non-negative distance, duration and turn count, and any environment,
  each of the eight risk factors of \<open>calculateRawRiskScore\<close> lies between 0 and 1; the total
  raw risk (stored in the factors and returned beside them) is the sum, added from left to
  right in double arithmetic, of the factors weighted by 0.25 (crime), 0.15 (lighting), 0.15
  (time), 0.10 (distance), 0.10 (duration), 0.10 (road type), 0.10 (weather) and 0.05
  (turns); the weights add up to exactly 1, as decimals and as doubles added in that order;
  so the total lies between 0 and 1 as well.
\<close>

theorem calculateRawRiskScore_unit_interval:
  assumes "0 \<le> distanceKm route" and "0 \<le> durationMin route" and "0 \<le> turnCount route"
  shows
    "(let rf = fst (calculateRawRiskScore route env);
          totalRisk = snd (calculateRawRiskScore route env)
      in (0 \<le> distanceRisk rf \<and> distanceRisk rf \<le> 1)
       \<and> (0 \<le> durationRisk rf \<and> durationRisk rf \<le> 1)
       \<and> (0 \<le> turnRisk rf \<and> turnRisk rf \<le> 1)
       \<and> (0 \<le> timeRisk rf \<and> timeRisk rf \<le> 1)
       \<and> (0 \<le> weatherRisk rf \<and> weatherRisk rf \<le> 1)
       \<and> (0 \<le> crimeRisk rf \<and> crimeRisk rf \<le> 1)
       \<and> (0 \<le> lightingRisk rf \<and> lightingRisk rf \<le> 1)
       \<and> (0 \<le> roadTypeRisk rf \<and> roadTypeRisk rf \<le> 1)
       \<and> totalRawRisk rf =
            fadd (fadd (fadd (fadd (fadd (fadd (fadd
              (fmul (crimeRisk rf) (25 / 100)) (fmul (lightingRisk rf) (15 / 100)))
              (fmul (timeRisk rf) (15 / 100))) (fmul (distanceRisk rf) (10 / 100)))
              (fmul (durationRisk rf) (10 / 100))) (fmul (roadTypeRisk rf) (10 / 100)))
              (fmul (weatherRisk rf) (10 / 100))) (fmul (turnRisk rf) (5 / 100))
       \<and> totalRisk = totalRawRisk rf
       \<and> crime WEIGHTS + lighting WEIGHTS + time WEIGHTS + distance WEIGHTS + duration WEIGHTS
            + roadTypeW WEIGHTS + weather WEIGHTS + turn WEIGHTS = 1
       \<and> fadd (fadd (fadd (fadd (fadd (fadd (fadd (crime WEIGHTS) (lighting WEIGHTS))
            (time WEIGHTS)) (distance WEIGHTS)) (duration WEIGHTS)) (roadTypeW WEIGHTS))
            (weather WEIGHTS)) (turn WEIGHTS) = 1
       \<and> (0 \<le> totalRawRisk rf \<and> totalRawRisk rf \<le> 1))"
proof -
  define rf where "rf = fst (calculateRawRiskScore route env)"
  have d: "0 \<le> distanceRisk rf \<and> distanceRisk rf \<le> 1"
    using assms(1) by (simp add: rf_def rawRisk_fields calculateDistanceRisk_def ratio_unit)
  have u: "0 \<le> durationRisk rf \<and> durationRisk rf \<le> 1"
    using assms(2) by (simp add: rf_def rawRisk_fields calculateDurationRisk_def ratio_unit)
  have t: "0 \<le> turnRisk rf \<and> turnRisk rf \<le> 1"
    using assms(3) by (simp add: rf_def rawRisk_fields calculateTurnRisk_def ratio_unit)
  have h: "0 \<le> timeRisk rf \<and> timeRisk rf \<le> 1"
    by (simp add: rf_def rawRisk_fields time_unit)
  have w: "0 \<le> weatherRisk rf \<and> weatherRisk rf \<le> 1"
    by (simp add: rf_def rawRisk_fields weather_unit)
  have c: "0 \<le> crimeRisk rf \<and> crimeRisk rf \<le> 1"
    by (simp add: rf_def rawRisk_fields crime_unit)
  have l: "0 \<le> lightingRisk rf \<and> lightingRisk rf \<le> 1"
    by (simp add: rf_def rawRisk_fields lighting_unit)
  have r: "0 \<le> roadTypeRisk rf \<and> roadTypeRisk rf \<le> 1"
    by (simp add: rf_def rawRisk_fields roadType_unit)
  have s: "totalRawRisk rf =
            fadd (fadd (fadd (fadd (fadd (fadd (fadd
              (fmul (crimeRisk rf) (25 / 100)) (fmul (lightingRisk rf) (15 / 100)))
              (fmul (timeRisk rf) (15 / 100))) (fmul (distanceRisk rf) (10 / 100)))
              (fmul (durationRisk rf) (10 / 100))) (fmul (roadTypeRisk rf) (10 / 100)))
              (fmul (weatherRisk rf) (10 / 100))) (fmul (turnRisk rf) (5 / 100))"
    by (simp add: rf_def calculateRawRiskScore_def Let_def WEIGHTS_def)
  have e: "snd (calculateRawRiskScore route env) = totalRawRisk rf"
    by (simp add: rf_def rawRisk_total)
  have ws: "crime WEIGHTS + lighting WEIGHTS + time WEIGHTS + distance WEIGHTS + duration WEIGHTS
            + roadTypeW WEIGHTS + weather WEIGHTS + turn WEIGHTS = 1"
    by (simp add: WEIGHTS_def)
  have wd: "fadd (fadd (fadd (fadd (fadd (fadd (fadd (crime WEIGHTS) (lighting WEIGHTS))
            (time WEIGHTS)) (distance WEIGHTS)) (duration WEIGHTS)) (roadTypeW WEIGHTS))
            (weather WEIGHTS)) (turn WEIGHTS) = 1"
    using weights_chain by (simp add: WEIGHTS_def)
  have b: "0 \<le> totalRawRisk rf \<and> totalRawRisk rf \<le> 1"
    unfolding s by (rule weighted_unit [OF c l h d u r w t])
  show ?thesis
    unfolding Let_def rf_def [symmetric] e
    using d u t h w c l r s ws wd b by blast
qed

theorem calculateRawRiskScore_unit_interval_witness:
  "(0::real) \<le> 5 \<and> (0::real) \<le> 15 \<and> (0::real) \<le> 10
   \<and> 0 \<le> totalRawRisk (fst (calculateRawRiskScore
          \<lparr>RouteInputData.routeId = ''a'', distanceKm = 5, durationMin = 15, turnCount = 10,
           roadType = None, crimeLevel = Some high, lightingLevel = None\<rparr>
          \<lparr>currentHour = 20, weatherCondition = cloudy\<rparr>))
   \<and> totalRawRisk (fst (calculateRawRiskScore
          \<lparr>RouteInputData.routeId = ''a'', distanceKm = 5, durationMin = 15, turnCount = 10,
           roadType = None, crimeLevel = Some high, lightingLevel = None\<rparr>
          \<lparr>currentHour = 20, weatherCondition = cloudy\<rparr>)) \<le> 1"
proof -
  let ?r = "\<lparr>RouteInputData.routeId = ''a'', distanceKm = 5, durationMin = 15, turnCount = 10,
           roadType = None, crimeLevel = Some high, lightingLevel = None\<rparr>"
  let ?e = "\<lparr>currentHour = 20, weatherCondition = cloudy\<rparr>"
  have a: "0 \<le> distanceKm ?r" by simp
  have b: "0 \<le> durationMin ?r" by simp
  have c: "0 \<le> turnCount ?r" by simp
  note t = calculateRawRiskScore_unit_interval [OF a b c, of ?e, unfolded Let_def]
  have "0 \<le> totalRawRisk (fst (calculateRawRiskScore ?r ?e))
      \<and> totalRawRisk (fst (calculateRawRiskScore ?r ?e)) \<le> 1"
    using t by (elim conjE) (rule conjI)
  then show ?thesis by simp
qed

section \<open>Area score\<close>

lemma percent_mono: "a \<le> b \<Longrightarrow> double (double a * 100) \<le> double (double b * 100)"
  by (intro double_mono mult_right_mono) simp_all

lemma percent_0: "double (double 0 * 100) = 0"
  by (simp add: double_0)

lemma percent_1: "double (double 1 * 100) = 100"
  by (simp add: double_1 double_numeral_small)

lemma percent_half: "double (double (1 / 2) * 100) = 50"
  by (simp add: double_eval)

lemma percent_49: "double (double (49 / 100) * 100) = 49"
  by (simp add: double_eval)

lemma percent_51: "double (double (51 / 100) * 100) = 51"
  by (simp add: double_eval)

lemma percent_495: "double (double (99 / 200) * 100) = 99 / 2"
  by (simp add: double_eval)

lemma percent_505: "double (double (101 / 200) * 100) = 101 / 2"
  by (simp add: double_eval)

lemma percent_below_495: "double (double (99 / 200 - 1 / 200000000) * 100) < 99 / 2"
  by (simp add: double_eval)

lemma percent_below_505: "double (double (101 / 200 - 1 / 200000000) * 100) < 101 / 2"
  by (simp add: double_eval)

text \<open>
  Two fractions with a denominator up to a million that differ are at least
  \<open>1 / (200 * 10\<^sup>6)\<close> away from a multiple of \<open>1 / 200\<close>.
\<close>

lemma ratio_gap:
  fixes s t c :: int
  assumes "0 < t" and "t \<le> 1000000" and "200 * s < c * t"
  shows "real_of_int s / real_of_int t \<le> real_of_int c / 200 - 1 / 200000000"
proof -
  have tp: "0 < real_of_int t" using assms(1) by simp
  have "200 * s + 1 \<le> c * t" using assms(3) by simp
  then have "real_of_int (200 * s + 1) \<le> real_of_int (c * t)" by (simp only: of_int_le_iff)
  then have a: "200 * real_of_int s + 1 \<le> real_of_int c * real_of_int t" by simp
  have "real_of_int t \<le> 1000000" using assms(2) by simp
  then have "real_of_int t / 1000000 \<le> 1" by simp
  then have "200 * real_of_int s + real_of_int t / 1000000 \<le> real_of_int c * real_of_int t"
    using a by linarith
  then have "200 * real_of_int s \<le> (real_of_int c - 1 / 1000000) * real_of_int t"
    by (simp add: algebra_simps)
  then have "200 * (real_of_int s / real_of_int t) \<le> real_of_int c - 1 / 1000000"
    using tp by (simp add: pos_divide_le_eq)
  then show ?thesis by simp
qed

lemma area_total:
  assumes "0 \<le> s" and "0 \<le> u" and "s + u \<le> 2 ^ 53"
  shows "fadd (real_of_int s) (real_of_int u) = real_of_int (s + u)"
proof -
  have "double (real_of_int s) = real_of_int s"
    using assms by (intro double_of_int) simp
  moreover have "double (real_of_int u) = real_of_int u"
    using assms by (intro double_of_int) simp
  moreover have "double (real_of_int (s + u)) = real_of_int (s + u)"
    using assms by (intro double_of_int) simp
  ultimately show ?thesis by (simp add: fadd_def)
qed

lemma area_percent:
  assumes "0 \<le> s" and "0 \<le> u" and "s + u \<le> 2 ^ 53"
  shows "js_round (fmul (fdiv (real_of_int s) (real_of_int (s + u))) 100)
         = \<lfloor>double (double (real_of_int s / real_of_int (s + u)) * 100) + 1 / 2\<rfloor>"
proof -
  have "double (real_of_int s) = real_of_int s"
    using assms by (intro double_of_int) simp
  moreover have "double (real_of_int (s + u)) = real_of_int (s + u)"
    using assms by (intro double_of_int) simp
  ultimately show ?thesis
    by (simp add: js_round_def fmul_def fdiv_def double_double double_numeral_small)
qed

lemma area_score_eq:
  assumes "0 \<le> s" and "0 \<le> u" and "s + u \<le> 2 ^ 53" and "0 < s + u"
  shows "calculateAreaSafetyScore s u
         = js_round (fmul (fdiv (real_of_int s) (real_of_int (s + u))) 100)"
proof -
  have "real_of_int (s + u) \<noteq> 0" using assms(4) by simp
  then show ?thesis
    unfolding calculateAreaSafetyScore_def area_total [OF assms(1,2,3)] Let_def
    by (simp only: if_False)
qed

text \<open>
  C4 (as amended). For integer counts \<open>s \<ge> 0\<close> and \<open>u \<ge> 0\<close> with \<open>s + u \<le> 2\<^sup>5\<^sup>3\<close> the
  area score is \<open>Math.round(s / (s + u) * 100)\<close>, the quotient and the product rounded to
  doubles, when \<open>s + u > 0\<close>, and 50 when both counts are 0; it lies between 0 and 100. The
  value 50 is not reserved for the empty cell: every cell with as many safe as unsafe reports
  scores 50, and a cell with reports scores 50 only if its share of safe reports lies between
  49 and 51 percent. With up to a million reports the score is 50 exactly when both counts
  are 0 or \<open>99 (s + u) \<le> 200 s < 101 (s + u)\<close>. A cell without a document also scores 50.
\<close>

theorem calculateAreaSafetyScore_spec:
  assumes "0 \<le> s" and "0 \<le> u" and "s + u \<le> 2 ^ 53"
  shows "(0 < s + u \<longrightarrow>
            calculateAreaSafetyScore s u
            = js_round (fmul (fdiv (real_of_int s) (real_of_int (s + u))) 100))
       \<and> (s = 0 \<and> u = 0 \<longrightarrow> calculateAreaSafetyScore s u = 50)
       \<and> 0 \<le> calculateAreaSafetyScore s u \<and> calculateAreaSafetyScore s u \<le> 100
       \<and> (s = u \<longrightarrow> calculateAreaSafetyScore s u = 50)
       \<and> (calculateAreaSafetyScore s u = 50 \<and> 0 < s + u \<longrightarrow>
            49 * (s + u) \<le> 100 * s \<and> 100 * s \<le> 51 * (s + u))
       \<and> (s + u \<le> 1000000 \<longrightarrow>
            (calculateAreaSafetyScore s u = 50 \<longleftrightarrow>
               (s = 0 \<and> u = 0) \<or> (99 * (s + u) \<le> 200 * s \<and> 200 * s < 101 * (s + u))))
       \<and> (areas db g = Inr None \<longrightarrow> getAreaSafetyScore db g = 50)"
proof (cases "s + u = 0")
  case True
  then have "s = 0" "u = 0" using assms by auto
  then show ?thesis
    by (simp add: calculateAreaSafetyScore_def getAreaSafetyScore_def getAreaSafetyData_def
        fadd_def double_0)
next
  case False
  then have pos: "0 < s + u" using assms by auto
  define q where "q = real_of_int s / real_of_int (s + u)"
  define p where "p = double (double q * 100)"
  have r: "calculateAreaSafetyScore s u
           = js_round (fmul (fdiv (real_of_int s) (real_of_int (s + u))) 100)"
    by (rule area_score_eq [OF assms pos])
  have sc: "calculateAreaSafetyScore s u = \<lfloor>p + 1 / 2\<rfloor>"
    unfolding r area_percent [OF assms] p_def q_def ..
  have tpos: "0 < real_of_int (s + u)" using pos by simp
  have q0: "0 \<le> q" unfolding q_def using assms(1) tpos by simp
  have q1: "q \<le> 1" unfolding q_def using assms(2) tpos by simp
  have p0: "0 \<le> p" unfolding p_def using percent_mono [OF q0] by (simp only: percent_0)
  have p1: "p \<le> 100" unfolding p_def using percent_mono [OF q1] by (simp only: percent_1)
  have lo: "0 \<le> calculateAreaSafetyScore s u" unfolding sc using p0 by linarith
  have hi: "calculateAreaSafetyScore s u \<le> 100" unfolding sc using p1 by linarith
  have eq: "s = u \<longrightarrow> calculateAreaSafetyScore s u = 50"
  proof
    assume e: "s = u"
    then have "0 < real_of_int u" using pos by simp
    then have "q = 1 / 2" unfolding q_def e by (simp add: field_simps)
    then have "p = 50" unfolding p_def by (simp only: percent_half)
    then show "calculateAreaSafetyScore s u = 50" unfolding sc by simp
  qed
  have nec: "calculateAreaSafetyScore s u = 50 \<and> 0 < s + u \<longrightarrow>
            49 * (s + u) \<le> 100 * s \<and> 100 * s \<le> 51 * (s + u)"
  proof
    assume a: "calculateAreaSafetyScore s u = 50 \<and> 0 < s + u"
    have l: "49 * (s + u) \<le> 100 * s"
    proof (rule ccontr)
      assume "\<not> 49 * (s + u) \<le> 100 * s"
      then have "100 * real_of_int s < 49 * real_of_int (s + u)"
        by (metis not_le of_int_less_iff of_int_mult of_int_numeral)
      then have "q \<le> 49 / 100" unfolding q_def using tpos by (simp add: field_simps)
      then have "p \<le> 49" unfolding p_def using percent_mono [of q "49 / 100"]
        by (simp only: percent_49)
      then have "\<lfloor>p + 1 / 2\<rfloor> \<le> 49" by linarith
      then show False using a unfolding sc by simp
    qed
    have h: "100 * s \<le> 51 * (s + u)"
    proof (rule ccontr)
      assume "\<not> 100 * s \<le> 51 * (s + u)"
      then have "51 * real_of_int (s + u) < 100 * real_of_int s"
        by (metis not_le of_int_less_iff of_int_mult of_int_numeral)
      then have "51 / 100 \<le> q" unfolding q_def using tpos by (simp add: field_simps)
      then have "51 \<le> p" unfolding p_def using percent_mono [of "51 / 100" q]
        by (simp only: percent_51)
      then have "51 \<le> \<lfloor>p + 1 / 2\<rfloor>" by linarith
      then show False using a unfolding sc by simp
    qed
    show "49 * (s + u) \<le> 100 * s \<and> 100 * s \<le> 51 * (s + u)" using l h ..
  qed
  have ex: "s + u \<le> 1000000 \<longrightarrow>
            (calculateAreaSafetyScore s u = 50 \<longleftrightarrow>
               (s = 0 \<and> u = 0) \<or> (99 * (s + u) \<le> 200 * s \<and> 200 * s < 101 * (s + u)))"
  proof
    assume small: "s + u \<le> 1000000"
    have below: "p < real_of_int c / 2" if "200 * s < c * (s + u)"
      and "double (double (real_of_int c / 200 - 1 / 200000000) * 100) < real_of_int c / 2"
      for c
    proof -
      have "q \<le> real_of_int c / 200 - 1 / 200000000"
        unfolding q_def using pos small that(1) by (rule ratio_gap)
      then have "p \<le> double (double (real_of_int c / 200 - 1 / 200000000) * 100)"
        unfolding p_def by (rule percent_mono)
      then show ?thesis using that(2) by linarith
    qed
    have above: "real_of_int c / 2 \<le> p" if "c * (s + u) \<le> 200 * s"
      and "double (double (real_of_int c / 200) * 100) = real_of_int c / 2" for c
    proof -
      have "real_of_int (c * (s + u)) \<le> real_of_int (200 * s)"
        using that(1) by (simp only: of_int_le_iff)
      then have "real_of_int c * real_of_int (s + u) \<le> 200 * real_of_int s" by simp
      then have "real_of_int c / 200 \<le> q"
        unfolding q_def using tpos by (simp add: pos_le_divide_eq)
      then have "double (double (real_of_int c / 200) * 100) \<le> p"
        unfolding p_def by (rule percent_mono)
      then show ?thesis using that(2) by simp
    qed
    have b99: "double (double (real_of_int 99 / 200 - 1 / 200000000) * 100) < real_of_int 99 / 2"
      using percent_below_495 by simp
    have b101: "double (double (real_of_int 101 / 200 - 1 / 200000000) * 100)
        < real_of_int 101 / 2"
      using percent_below_505 by simp
    have a99: "double (double (real_of_int 99 / 200) * 100) = real_of_int 99 / 2"
      using percent_495 by simp
    have a101: "double (double (real_of_int 101 / 200) * 100) = real_of_int 101 / 2"
      using percent_505 by simp
    show "calculateAreaSafetyScore s u = 50 \<longleftrightarrow>
               (s = 0 \<and> u = 0) \<or> (99 * (s + u) \<le> 200 * s \<and> 200 * s < 101 * (s + u))"
    proof
      assume fifty: "calculateAreaSafetyScore s u = 50"
      have "99 * (s + u) \<le> 200 * s"
      proof (rule ccontr)
        assume "\<not> 99 * (s + u) \<le> 200 * s"
        then have "200 * s < 99 * (s + u)" by simp
        then have "p < real_of_int 99 / 2" using b99 by (rule below)
        then have "\<lfloor>p + 1 / 2\<rfloor> \<le> 49" by (simp add: floor_le_iff)
        then show False using fifty unfolding sc by simp
      qed
      moreover have "200 * s < 101 * (s + u)"
      proof (rule ccontr)
        assume "\<not> 200 * s < 101 * (s + u)"
        then have "101 * (s + u) \<le> 200 * s" by simp
        then have "real_of_int 101 / 2 \<le> p" using a101 by (rule above)
        then have "51 \<le> \<lfloor>p + 1 / 2\<rfloor>" by (simp add: le_floor_iff)
        then show False using fifty unfolding sc by simp
      qed
      ultimately show "(s = 0 \<and> u = 0) \<or> (99 * (s + u) \<le> 200 * s \<and> 200 * s < 101 * (s + u))"
        by simp
    next
      assume "(s = 0 \<and> u = 0) \<or> (99 * (s + u) \<le> 200 * s \<and> 200 * s < 101 * (s + u))"
      then have r: "99 * (s + u) \<le> 200 * s" "200 * s < 101 * (s + u)"
        using pos by auto
      have "real_of_int 99 / 2 \<le> p" using r(1) a99 by (rule above)
      then have l: "50 \<le> \<lfloor>p + 1 / 2\<rfloor>" by (simp add: le_floor_iff)
      have "p < real_of_int 101 / 2" using r(2) b101 by (rule below)
      then have h: "\<lfloor>p + 1 / 2\<rfloor> \<le> 50" by (simp add: floor_le_iff)
      show "calculateAreaSafetyScore s u = 50" unfolding sc using l h by (rule order_antisym [rotated])
    qed
  qed
  have m: "areas db g = Inr None \<longrightarrow> getAreaSafetyScore db g = 50"
    by (simp add: getAreaSafetyScore_def getAreaSafetyData_def)
  have z: "s = 0 \<and> u = 0 \<longrightarrow> calculateAreaSafetyScore s u = 50"
    using pos by simp
  have f: "0 < s + u \<longrightarrow> calculateAreaSafetyScore s u
           = js_round (fmul (fdiv (real_of_int s) (real_of_int (s + u))) 100)"
    using r ..
  show ?thesis
    by (rule conjI [OF f conjI [OF z conjI [OF lo conjI [OF hi conjI [OF eq conjI [OF nec
          conjI [OF ex m]]]]]]])
qed

theorem calculateAreaSafetyScore_spec_witness:
  "(0::int) \<le> 23 \<and> (0::int) \<le> 17 \<and> (23::int) + 17 \<le> 2 ^ 53
   \<and> calculateAreaSafetyScore 23 17 = 57 \<and> calculateAreaSafetyScore 1 0 = 100
   \<and> calculateAreaSafetyScore 0 0 = 50 \<and> calculateAreaSafetyScore 1 1 = 50
   \<and> calculateAreaSafetyScore 100 101 = 50"
proof -
  have a: "calculateAreaSafetyScore 23 17 = 57"
    using calculateAreaSafetyScore_spec [of 23 17, THEN conjunct1]
    by (simp add: js_round_def fmul_def fdiv_def double_eval)
  have b: "calculateAreaSafetyScore 1 0 = 100"
    using calculateAreaSafetyScore_spec [of 1 0, THEN conjunct1]
    by (simp add: js_round_def fmul_def fdiv_def double_eval)
  have c: "calculateAreaSafetyScore 0 0 = 50"
    using calculateAreaSafetyScore_spec [of 0 0, THEN conjunct2, THEN conjunct1] by simp
  have d: "calculateAreaSafetyScore 1 1 = 50"
    using calculateAreaSafetyScore_spec [of 1 1, THEN conjunct2, THEN conjunct2,
        THEN conjunct2, THEN conjunct2, THEN conjunct1]
    by simp
  have e: "calculateAreaSafetyScore 100 101 = 50"
    using calculateAreaSafetyScore_spec [of 100 101, THEN conjunct2, THEN conjunct2,
        THEN conjunct2, THEN conjunct2, THEN conjunct2, THEN conjunct2, THEN conjunct1]
    by simp
  show ?thesis using a b c d e by simp
qed

text \<open>
  C4 as written says that no counts with \<open>s + u > 0\<close> give 50. One safe and one unsafe
  report do.
\<close>

theorem calculateAreaSafetyScore_fifty_counterexample:
  "(0::int) \<le> 1 \<and> (0::int) < 1 + 1 \<and> calculateAreaSafetyScore 1 1 = 50"
  by (simp add: calculateAreaSafetyScore_def js_round_def fadd_def fmul_def fdiv_def double_eval)

section \<open>Feedback eligibility\<close>

text \<open>
  C5. \<open>canUserSubmitFeedback\<close> reads the document \<open>userId_gridId\<close>. When the document does
  not exist the user may submit. When it exists the user may submit exactly when at least 24
  hours (86400000 ms) have passed since \<open>lastSubmittedAt\<close>; otherwise the answer is a denial
  with \<open>hoursRemaining = ceil(24 - hoursSinceLast)\<close>, which is at least 1: 23 hours after a
  submission the user is denied with 1 hour remaining, 25 hours after it the user is allowed.
  When the read throws, the answer is a denial.
\<close>

theorem canUserSubmitFeedback_spec:
  "(userGridFeedbacks db (userId @ ''_'' @ gridId) = Inr None \<longrightarrow>
      canSubmit (canUserSubmitFeedback db now userId gridId))
   \<and> (userGridFeedbacks db (userId @ ''_'' @ gridId) = Inr (Some d) \<longrightarrow>
        (canSubmit (canUserSubmitFeedback db now userId gridId)
           \<longleftrightarrow> 24 * 3600000 \<le> now - lastSubmittedAt d)
      \<and> (\<not> canSubmit (canUserSubmitFeedback db now userId gridId) \<longrightarrow>
           hoursRemaining (canUserSubmitFeedback db now userId gridId)
             = Some \<lceil>24 - real_of_int (now - lastSubmittedAt d) / 3600000\<rceil>
           \<and> 1 \<le> \<lceil>24 - real_of_int (now - lastSubmittedAt d) / 3600000\<rceil>)
      \<and> (now - lastSubmittedAt d = 23 * 3600000 \<longrightarrow>
           canUserSubmitFeedback db now userId gridId
             = \<lparr>canSubmit = False, hoursRemaining = Some 1\<rparr>)
      \<and> (now - lastSubmittedAt d = 25 * 3600000 \<longrightarrow>
           canSubmit (canUserSubmitFeedback db now userId gridId)))
   \<and> (userGridFeedbacks db (userId @ ''_'' @ gridId) = Inl err \<longrightarrow>
        \<not> canSubmit (canUserSubmitFeedback db now userId gridId))"
proof -
  let ?k = "userId @ ''_'' @ gridId"
  let ?r = "canUserSubmitFeedback db now userId gridId"
  have none: "userGridFeedbacks db ?k = Inr None \<longrightarrow> canSubmit ?r"
    by (simp add: canUserSubmitFeedback_def)
  have err: "userGridFeedbacks db ?k = Inl err \<longrightarrow> \<not> canSubmit ?r"
    by (simp add: canUserSubmitFeedback_def)
  have some: "userGridFeedbacks db ?k = Inr (Some d) \<longrightarrow>
      (canSubmit ?r \<longleftrightarrow> 24 * 3600000 \<le> now - lastSubmittedAt d)
      \<and> (\<not> canSubmit ?r \<longrightarrow>
           hoursRemaining ?r = Some \<lceil>24 - real_of_int (now - lastSubmittedAt d) / 3600000\<rceil>
           \<and> 1 \<le> \<lceil>24 - real_of_int (now - lastSubmittedAt d) / 3600000\<rceil>)
      \<and> (now - lastSubmittedAt d = 23 * 3600000 \<longrightarrow>
           ?r = \<lparr>canSubmit = False, hoursRemaining = Some 1\<rparr>)
      \<and> (now - lastSubmittedAt d = 25 * 3600000 \<longrightarrow> canSubmit ?r)"
  proof (rule impI)
    assume rd: "userGridFeedbacks db ?k = Inr (Some d)"
    define e where "e = now - lastSubmittedAt d"
    define h where "h = real_of_int e / 3600000"
    have r: "?r = (if 24 \<le> h
                   then \<lparr>canSubmit = True, hoursRemaining = None\<rparr>
                   else \<lparr>canSubmit = False, hoursRemaining = Some \<lceil>24 - h\<rceil>\<rparr>)"
      using rd by (simp add: canUserSubmitFeedback_def Let_def e_def h_def)
    have c: "24 \<le> h \<longleftrightarrow> 24 * 3600000 \<le> e"
    proof -
      have "24 \<le> h \<longleftrightarrow> real_of_int (24 * 3600000) \<le> real_of_int e"
        by (simp add: h_def field_simps)
      then show ?thesis by (simp only: of_int_le_iff)
    qed
    have p: "1 \<le> \<lceil>24 - h\<rceil>" if "\<not> 24 \<le> h"
    proof -
      have "0 < 24 - h" using that by simp
      then have "0 < \<lceil>24 - h\<rceil>" by (simp only: zero_less_ceiling)
      then show ?thesis by simp
    qed
    have h23: "h = 23" if "e = 23 * 3600000"
      by (simp add: h_def that)
    have h25: "h = 25" if "e = 25 * 3600000"
      by (simp add: h_def that)
    have a1: "canSubmit ?r \<longleftrightarrow> 24 * 3600000 \<le> e"
      unfolding r c [symmetric] by simp
    have a2: "\<not> canSubmit ?r \<longrightarrow> hoursRemaining ?r = Some \<lceil>24 - h\<rceil> \<and> 1 \<le> \<lceil>24 - h\<rceil>"
      unfolding r using p by simp
    have a3: "e = 23 * 3600000 \<longrightarrow> ?r = \<lparr>canSubmit = False, hoursRemaining = Some 1\<rparr>"
    proof (rule impI)
      assume "e = 23 * 3600000"
      then have "h = 23" by (rule h23)
      then show "?r = \<lparr>canSubmit = False, hoursRemaining = Some 1\<rparr>"
        unfolding r by simp
    qed
    have a4: "e = 25 * 3600000 \<longrightarrow> canSubmit ?r"
    proof (rule impI)
      assume "e = 25 * 3600000"
      then have "h = 25" by (rule h25)
      then show "canSubmit ?r"
        unfolding r by simp
    qed
    show "(canSubmit ?r \<longleftrightarrow> 24 * 3600000 \<le> now - lastSubmittedAt d)
      \<and> (\<not> canSubmit ?r \<longrightarrow>
           hoursRemaining ?r = Some \<lceil>24 - real_of_int (now - lastSubmittedAt d) / 3600000\<rceil>
           \<and> 1 \<le> \<lceil>24 - real_of_int (now - lastSubmittedAt d) / 3600000\<rceil>)
      \<and> (now - lastSubmittedAt d = 23 * 3600000 \<longrightarrow>
           ?r = \<lparr>canSubmit = False, hoursRemaining = Some 1\<rparr>)
      \<and> (now - lastSubmittedAt d = 25 * 3600000 \<longrightarrow> canSubmit ?r)"
      unfolding h_def [symmetric] e_def [symmetric]
      by (rule conjI [OF a1 conjI [OF a2 conjI [OF a3 a4]]])
  qed
  show ?thesis
    by (rule conjI [OF none conjI [OF some err]])
qed

theorem canUserSubmitFeedback_spec_witness:
  "canUserSubmitFeedback
     \<lparr>areas = (\<lambda>g. Inr None),
      userGridFeedbacks = (\<lambda>k. if k = ''u1_12.35_77.65''
                                then Inr (Some \<lparr>lastSubmittedAt = 1700000000000\<rparr>)
                                else if k = ''u2_12.35_77.65'' then Inl StoreError
                                else Inr None)\<rparr>
     (1700000000000 + 23 * 3600000) ''u1'' ''12.35_77.65''
   = \<lparr>canSubmit = False, hoursRemaining = Some 1\<rparr>"
proof -
  let ?db = "\<lparr>areas = (\<lambda>g. Inr None),
      userGridFeedbacks = (\<lambda>k. if k = ''u1_12.35_77.65''
                                then Inr (Some \<lparr>lastSubmittedAt = 1700000000000\<rparr>)
                                else if k = ''u2_12.35_77.65'' then Inl StoreError
                                else Inr None)\<rparr>"
  let ?d = "\<lparr>lastSubmittedAt = 1700000000000\<rparr>"
  have rd: "userGridFeedbacks ?db (''u1'' @ ''_'' @ ''12.35_77.65'') = Inr (Some ?d)"
    by simp
  have e: "(1700000000000 + 23 * 3600000) - lastSubmittedAt ?d = 23 * 3600000"
    by simp
  note t = canUserSubmitFeedback_spec
    [of ?db "''u1''" "''12.35_77.65''" "1700000000000 + 23 * 3600000" ?d]
  note u = t [THEN conjunct2, THEN conjunct1, THEN mp, OF rd]
  show ?thesis
    by (rule u [THEN conjunct2, THEN conjunct2, THEN conjunct1, THEN mp, OF e])
qed


section \<open>Grid identifiers\<close>

lemma digits_small: "n < 10 \<Longrightarrow> digits n = [''0123456789'' ! n]"
  by (simp add: digits.simps)

lemma digits_large:
  "\<not> n < 10 \<Longrightarrow> digits n = digits (n div 10) @ [''0123456789'' ! (n mod 10)]"
  by (subst digits.simps) simp

lemma getGridId_unfold:
  "getGridId la lo = toFixed2 (fdiv (real_of_int (js_round (fmul la 100))) 100) @ ''_''
                       @ toFixed2 (fdiv (real_of_int (js_round (fmul lo 100))) 100)"
  by (simp add: getGridId_def Let_def)

lemmas fixed_eval = toFixed2_def Let_def digits_small digits_large fdiv_def double_eval

lemmas round_eval = js_round_def fmul_def double_eval

lemma fixed_0: "toFixed2 (fdiv (real_of_int 0) 100) = ''0.00''"
  by (simp add: fixed_eval)

lemma fixed_100: "toFixed2 (fdiv (real_of_int 100) 100) = ''1.00''"
  by (simp add: fixed_eval)

lemma fixed_105: "toFixed2 (fdiv (real_of_int 105) 100) = ''1.05''"
  by (simp add: fixed_eval)

lemma fixed_1234: "toFixed2 (fdiv (real_of_int 1234) 100) = ''12.34''"
  by (simp add: fixed_eval)

lemma fixed_1235: "toFixed2 (fdiv (real_of_int 1235) 100) = ''12.35''"
  by (simp add: fixed_eval)

lemma fixed_m1235: "toFixed2 (fdiv (real_of_int (- 1235)) 100) = ''-12.35''"
  by (simp add: fixed_eval)

lemma fixed_1236: "toFixed2 (fdiv (real_of_int 1236) 100) = ''12.36''"
  by (simp add: fixed_eval)

lemma fixed_7760: "toFixed2 (fdiv (real_of_int 7760) 100) = ''77.60''"
  by (simp add: fixed_eval)

lemma fixed_7765: "toFixed2 (fdiv (real_of_int 7765) 100) = ''77.65''"
  by (simp add: fixed_eval)

lemma round_0: "js_round (fmul 0 100) = 0"
  by (simp add: js_round_def fmul_def double_0)

lemma round_1005: "js_round (fmul 1.005 100) = 100"
  by (simp add: round_eval)

lemma round_1045: "js_round (fmul 1.045 100) = 105"
  by (simp add: round_eval)

lemma round_123456: "js_round (fmul 12.3456 100) = 1235"
  by (simp add: round_eval)

lemma round_m123456: "js_round (fmul (- 12.3456) 100) = - 1235"
  by (simp add: round_eval)

lemma round_123449: "js_round (fmul 12.3449 100) = 1234"
  by (simp add: round_eval)

lemma round_123451: "js_round (fmul 12.3451 100) = 1235"
  by (simp add: round_eval)

lemma round_1236: "js_round (fmul 12.36 100) = 1236"
  by (simp add: round_eval)

lemma round_1235: "js_round (fmul 12.35 100) = 1235"
  by (simp add: round_eval)

lemma round_776: "js_round (fmul 77.6 100) = 7760"
  by (simp add: round_eval)

lemma round_776543: "js_round (fmul 77.6543 100) = 7765"
  by (simp add: round_eval)

lemma round_776549: "js_round (fmul 77.6549 100) = 7765"
  by (simp add: round_eval)

lemma round_7765: "js_round (fmul 77.65 100) = 7765"
  by (simp add: round_eval)

lemmas grid_rounds = round_0 round_1005 round_1045 round_123456 round_m123456 round_123449
  round_123451 round_1236 round_1235 round_776 round_776543 round_776549 round_7765
  fixed_0 fixed_100 fixed_105 fixed_1234 fixed_1235 fixed_m1235 fixed_1236 fixed_7760 fixed_7765

lemma grid_a: "getGridId 12.3456 77.6543 = ''12.35_77.65''"
  unfolding getGridId_unfold grid_rounds by simp

lemma grid_b: "getGridId 12.3449 77.6549 = ''12.34_77.65''"
  unfolding getGridId_unfold grid_rounds by simp

lemma grid_c: "getGridId 12.36 77.6543 = ''12.36_77.65''"
  unfolding getGridId_unfold grid_rounds by simp

lemma grid_d: "getGridId 12.3451 77.6549 = ''12.35_77.65''"
  unfolding getGridId_unfold grid_rounds by simp

lemma grid_e: "getGridId 12.35 77.65 = ''12.35_77.65''"
  unfolding getGridId_unfold grid_rounds by simp

lemma grid_f: "getGridId (- 12.3456) 77.6 = ''-12.35_77.60''"
  unfolding getGridId_unfold grid_rounds by simp

lemma grid_g: "getGridId 1.045 0 = ''1.05_0.00''"
  unfolding getGridId_unfold grid_rounds by simp

lemma grid_h: "getGridId 1.005 0 = ''1.00_0.00''"
  unfolding getGridId_unfold grid_rounds by simp

text \<open>
  Between 0 and \<open>2\<^sup>4\<^sup>4\<close> the doubles include the multiples of \<open>1 / 256\<close>, so rounding
  to a double moves a number by less than \<open>1 / 256\<close>: a number of hundredths survives the
  division by 100 and the multiplication by 100 of \<open>toFixed(2)\<close>.
\<close>

lemma double_fix_dyadic:
  assumes "0 \<le> a" and "a < 2 ^ 45" and "a = of_int n / 256"
  shows "double a = a"
proof (cases "a = 0")
  case True
  then show ?thesis by (simp add: double_0)
next
  case False
  then have pos: "0 < a" using assms(1) by simp
  have "2 powi (expo a) \<le> a" using expo_bounds [OF pos] by simp
  then have "(2::real) powi (expo a) < 2 powi 45" using assms(2) by simp
  then have "expo a < 45" by (rule two_powi_less_cancel)
  then have q: "quantum a \<le> - 8" by (simp add: quantum_def)
  have "a = of_int n * 2 powi (- 8)" using assms(3) by (simp add: power_int_minus)
  then show ?thesis using q by (rule double_fix_scaled [OF pos])
qed

lemma double_grid:
  assumes "0 \<le> x" and "x < 2 ^ 44"
  shows "x - 1 / 256 < double x \<and> double x < x + 1 / 256"
proof -
  let ?a = "real_of_int \<lfloor>x * 256\<rfloor> / 256"
  let ?b = "real_of_int \<lceil>x * 256\<rceil> / 256"
  have a1: "?a \<le> x" by (simp add: divide_le_eq)
  have a2: "x - 1 / 256 < ?a"
  proof -
    have "x * 256 - 1 < real_of_int \<lfloor>x * 256\<rfloor>" by linarith
    then show ?thesis by (simp add: less_divide_eq algebra_simps)
  qed
  have a0: "0 \<le> ?a" using assms(1) by simp
  have "double ?a = ?a"
    using a0 a1 assms(2) by (intro double_fix_dyadic [of _ "\<lfloor>x * 256\<rfloor>"]) simp_all
  then have lo: "?a \<le> double x" using double_mono [OF a1] by simp
  have b1: "x \<le> ?b" by (simp add: le_divide_eq)
  have b2: "?b < x + 1 / 256"
  proof -
    have "real_of_int \<lceil>x * 256\<rceil> < x * 256 + 1" by linarith
    then show ?thesis by (simp add: divide_less_eq algebra_simps)
  qed
  have b0: "0 \<le> ?b" using assms(1) b1 by linarith
  have "?b < 2 ^ 45" using b2 assms(2) by simp
  then have "double ?b = ?b"
    using b0 by (intro double_fix_dyadic [of _ "\<lceil>x * 256\<rceil>"]) simp_all
  then have hi: "double x \<le> ?b" using double_mono [OF b1] by simp
  show ?thesis using lo hi a2 b2 by linarith
qed

lemma hundredths_round:
  assumes "0 \<le> k" and "k < 2 ^ 50"
  shows "\<lfloor>double (real_of_int k / 100) * 100 + 1 / 2\<rfloor> = k
       \<and> (0 < k \<longrightarrow> 0 < double (real_of_int k / 100))"
proof -
  let ?x = "real_of_int k / 100"
  have x0: "0 \<le> ?x" using assms(1) by simp
  have "real_of_int k < 2 ^ 50" using assms(2) by (metis of_int_less_iff of_int_numeral of_int_power)
  then have x1: "?x < 2 ^ 44" by simp
  note g = double_grid [OF x0 x1]
  have "real_of_int k \<le> double ?x * 100 + 1 / 2" using g by simp
  moreover have "double ?x * 100 + 1 / 2 < real_of_int k + 1" using g by simp
  ultimately have f: "\<lfloor>double ?x * 100 + 1 / 2\<rfloor> = k" by linarith
  have p: "0 < k \<longrightarrow> 0 < double ?x"
  proof
    assume "0 < k"
    then have "1 \<le> real_of_int k" by simp
    then have "1 / 100 \<le> ?x" by simp
    then show "0 < double ?x" using g by linarith
  qed
  show ?thesis using f p ..
qed

lemma fdiv_hundredths:
  assumes "\<bar>k\<bar> < 2 ^ 50"
  shows "fdiv (real_of_int k) 100 = double (real_of_int k / 100)"
proof -
  have "double (real_of_int k) = real_of_int k"
    using assms by (intro double_of_int) simp
  then show ?thesis by (simp add: fdiv_def double_numeral_small)
qed

lemma toFixed2_hundredths:
  assumes "\<bar>k\<bar> < 2 ^ 50"
  shows "toFixed2 (fdiv (real_of_int k) 100) =
     (let m = digits (nat \<bar>k\<bar>);
          m' = replicate (3 - length m) (CHR ''0'') @ m;
          j = length m' - 2
      in (if k < 0 then ''-'' else []) @ take j m' @ ''.'' @ drop j m')"
proof -
  let ?x = "real_of_int \<bar>k\<bar> / 100"
  have b: "0 \<le> \<bar>k\<bar>" "\<bar>k\<bar> < 2 ^ 50" using assms by simp_all
  note h = hundredths_round [OF b]
  have dn: "double (real_of_int k / 100) = - double ?x" if "k < 0"
  proof -
    have e: "real_of_int k / 100 = - ?x" using that by simp
    show ?thesis unfolding e by (rule double_minus)
  qed
  have dp: "double (real_of_int k / 100) = double ?x" if "\<not> k < 0"
  proof -
    have e: "real_of_int k = real_of_int \<bar>k\<bar>" using that by simp
    show ?thesis unfolding e ..
  qed
  have nn: "0 \<le> double ?x" by (intro double_nonneg) simp
  have s: "double (real_of_int k / 100) < 0 \<longleftrightarrow> k < 0"
  proof (cases "k < 0")
    case True
    then have "0 < \<bar>k\<bar>" by simp
    then have "0 < double ?x" using h by simp
    then show ?thesis using True dn [OF True] by simp
  next
    case False
    then show ?thesis using dp [OF False] nn by simp
  qed
  have a: "\<bar>double (real_of_int k / 100)\<bar> = double ?x"
  proof (cases "k < 0")
    case True
    show ?thesis unfolding dn [OF True] using nn by simp
  next
    case False
    show ?thesis unfolding dp [OF False] using nn by simp
  qed
  have n: "nat \<lfloor>\<bar>double (real_of_int k / 100)\<bar> * 100 + 1 / 2\<rfloor> = nat \<bar>k\<bar>"
    unfolding a using h by simp
  show ?thesis
    unfolding toFixed2_def fdiv_hundredths [OF assms] double_double s n by (simp add: Let_def)
qed


text \<open>
  The decimal digits that \<open>digits\<close> writes give the number back.
\<close>

lemma index_of_nth:
  assumes "distinct xs" and "i < length xs"
  shows "index_of xs (xs ! i) = i"
proof -
  have "takeWhile (\<lambda>y. y \<noteq> xs ! i) xs = take i xs"
  proof (rule takeWhile_eq_take_P_nth)
    fix k
    assume "k < i" and "k < length xs"
    then show "xs ! k \<noteq> xs ! i"
      using assms by (simp add: nth_eq_iff_index_eq)
  next
    show "\<not> xs ! i \<noteq> xs ! i" by simp
  qed
  then show ?thesis
    using assms(2) by (simp add: index_of_def)
qed

lemma digit_index: "d < 10 \<Longrightarrow> index_of ''0123456789'' (''0123456789'' ! d) = d"
  by (rule index_of_nth) simp_all

lemma digit_mem: "d < 10 \<Longrightarrow> ''0123456789'' ! d \<in> set ''0123456789''"
  by (rule nth_mem) simp

lemma digits_set: "set (digits n) \<subseteq> set ''0123456789''"
proof (induction n rule: digits.induct)
  case (1 n)
  show ?case
  proof (cases "n < 10")
    case True
    then show ?thesis
      unfolding digits_small [OF True] using digit_mem [OF True] by simp
  next
    case False
    have m: "n mod 10 < 10" by simp
    show ?thesis
      unfolding digits_large [OF False] using 1 [OF False] digit_mem [OF m] by simp
  qed
qed

lemma digits_value:
  "fold (\<lambda>c v. 10 * v + index_of ''0123456789'' c) (digits n) 0 = n"
proof (induction n rule: digits.induct)
  case (1 n)
  show ?case
  proof (cases "n < 10")
    case True
    show ?thesis
      unfolding digits_small [OF True] by (simp add: digit_index [OF True])
  next
    case False
    have m: "n mod 10 < 10" by simp
    show ?thesis
      unfolding digits_large [OF False] by (simp add: 1 [OF False] digit_index [OF m])
  qed
qed

lemma zeros_value:
  "fold (\<lambda>c v. 10 * v + index_of ''0123456789'' c) (replicate z (CHR ''0'')) 0 = 0"
  by (induction z) (simp_all add: index_of_def)

lemma body_props:
  assumes "set m' \<subseteq> D" and "0 < j" and "j < length m'" and "dot \<notin> D"
    and "set sg \<inter> D = {}"
  shows "filter (\<lambda>c. c \<in> D) (sg @ take j m' @ [dot] @ drop j m') = m'"
    and "sg = [] \<Longrightarrow> hd (sg @ take j m' @ [dot] @ drop j m') \<in> D"
    and "set (sg @ take j m' @ [dot] @ drop j m') \<subseteq> D \<union> set sg \<union> {dot}"
proof -
  have ft: "filter (\<lambda>c. c \<in> D) (take j m') = take j m'"
    using assms(1) by (intro filter_True) (auto dest: in_set_takeD)
  have fd: "filter (\<lambda>c. c \<in> D) (drop j m') = drop j m'"
    using assms(1) by (intro filter_True) (auto dest: in_set_dropD)
  have fs: "filter (\<lambda>c. c \<in> D) sg = []"
    using assms(5) by (intro filter_False) auto
  show "filter (\<lambda>c. c \<in> D) (sg @ take j m' @ [dot] @ drop j m') = m'"
    unfolding filter_append fs ft fd using assms(4) by simp
  have ne: "take j m' \<noteq> []" using assms(2,3) by auto
  then have "hd (take j m') \<in> set (take j m')" by (rule hd_in_set)
  then have "hd (take j m') \<in> D" using assms(1) by (auto dest: in_set_takeD)
  then show "sg = [] \<Longrightarrow> hd (sg @ take j m' @ [dot] @ drop j m') \<in> D"
    using ne by simp
  show "set (sg @ take j m' @ [dot] @ drop j m') \<subseteq> D \<union> set sg \<union> {dot}"
    using assms(1) by (auto dest: in_set_takeD in_set_dropD)
qed

text \<open>
  A number of hundredths can be read back from what \<open>toFixed(2)\<close> prints for it: the digits
  give its magnitude, the first character its sign; and no underscore is printed.
\<close>

lemma toFixed2_decode:
  assumes "\<bar>k\<bar> < 2 ^ 50"
  shows "fold (\<lambda>c v. 10 * v + index_of ''0123456789'' c)
           (filter (\<lambda>c. c \<in> set ''0123456789'') (toFixed2 (fdiv (real_of_int k) 100))) 0
         = nat \<bar>k\<bar>"
    and "hd (toFixed2 (fdiv (real_of_int k) 100)) = CHR ''-'' \<longleftrightarrow> k < 0"
    and "CHR ''_'' \<notin> set (toFixed2 (fdiv (real_of_int k) 100))"
proof -
  define D where "D = set ''0123456789''"
  define m where "m = digits (nat \<bar>k\<bar>)"
  define m' where "m' = replicate (3 - length m) (CHR ''0'') @ m"
  define j where "j = length m' - 2"
  define sg where "sg = (if k < 0 then ''-'' else [])"
  have f: "toFixed2 (fdiv (real_of_int k) 100) = sg @ take j m' @ [CHR ''.''] @ drop j m'"
    unfolding toFixed2_hundredths [OF assms] Let_def m_def m'_def j_def sg_def ..
  have z: "CHR ''0'' \<in> D" and dot: "CHR ''.'' \<notin> D" and mi: "CHR ''-'' \<notin> D"
    and us: "CHR ''_'' \<notin> D"
    unfolding D_def by simp_all
  have ms: "set m \<subseteq> D" unfolding m_def D_def by (rule digits_set)
  have ms': "set m' \<subseteq> D" unfolding m'_def using ms z by auto
  have len: "3 \<le> length m'" unfolding m'_def by simp
  have j1: "0 < j" and j2: "j < length m'" unfolding j_def using len by simp_all
  have sd: "set sg \<inter> D = {}" unfolding sg_def using mi by auto
  note p = body_props [OF ms' j1 j2 dot sd]
  have "fold (\<lambda>c v. 10 * v + index_of ''0123456789'' c) m' 0
        = fold (\<lambda>c v. 10 * v + index_of ''0123456789'' c) m 0"
    unfolding m'_def fold_append o_apply zeros_value ..
  then have "fold (\<lambda>c v. 10 * v + index_of ''0123456789'' c) m' 0 = nat \<bar>k\<bar>"
    unfolding m_def digits_value .
  then show "fold (\<lambda>c v. 10 * v + index_of ''0123456789'' c)
           (filter (\<lambda>c. c \<in> set ''0123456789'') (toFixed2 (fdiv (real_of_int k) 100))) 0
         = nat \<bar>k\<bar>"
    unfolding f D_def [symmetric] p(1) .
  show "hd (toFixed2 (fdiv (real_of_int k) 100)) = CHR ''-'' \<longleftrightarrow> k < 0"
  proof (cases "k < 0")
    case True
    then show ?thesis unfolding f sg_def by simp
  next
    case False
    then have "sg = []" by (simp add: sg_def)
    then have "hd (toFixed2 (fdiv (real_of_int k) 100)) \<in> D"
      unfolding f by (rule p(2))
    then show ?thesis using False mi by auto
  qed
  have "set sg \<subseteq> {CHR ''-''}" by (auto simp add: sg_def)
  then have "CHR ''_'' \<notin> D \<union> set sg \<union> {CHR ''.''}" using us by auto
  then show "CHR ''_'' \<notin> set (toFixed2 (fdiv (real_of_int k) 100))"
    unfolding f using p(3) by blast
qed

lemma toFixed2_inj:
  assumes "\<bar>k\<bar> < 2 ^ 50" and "\<bar>l\<bar> < 2 ^ 50"
    and "toFixed2 (fdiv (real_of_int k) 100) = toFixed2 (fdiv (real_of_int l) 100)"
  shows "k = l"
proof -
  have "nat \<bar>k\<bar> = nat \<bar>l\<bar>"
    using toFixed2_decode(1) [OF assms(1)] toFixed2_decode(1) [OF assms(2)]
    unfolding assms(3) by simp
  moreover have "k < 0 \<longleftrightarrow> l < 0"
    using toFixed2_decode(2) [OF assms(1)] toFixed2_decode(2) [OF assms(2)]
    unfolding assms(3) by simp
  ultimately show ?thesis by linarith
qed

lemma underscore_split:
  assumes "CHR ''_'' \<notin> set u" and "CHR ''_'' \<notin> set v"
    and "u @ ''_'' @ p = v @ ''_'' @ q"
  shows "u = v \<and> p = q"
proof -
  have a: "takeWhile (\<lambda>c. c \<noteq> CHR ''_'') (u @ ''_'' @ p) = u"
    using assms(1) by (subst takeWhile_append2) auto
  have b: "takeWhile (\<lambda>c. c \<noteq> CHR ''_'') (v @ ''_'' @ q) = v"
    using assms(2) by (subst takeWhile_append2) auto
  have "u = v" using a b unfolding assms(3) by simp
  then show ?thesis using assms(3) by simp
qed

lemma hundredths_bound:
  assumes "\<bar>x\<bar> \<le> 1000"
  shows "\<bar>js_round (fmul x 100)\<bar> < 2 ^ 50"
proof -
  have d: "double (real_of_int 1000) = real_of_int 1000"
    by (rule double_of_int) simp
  have e: "double (real_of_int 100000) = real_of_int 100000"
    by (rule double_of_int) simp
  have e': "double (real_of_int (- 100000)) = real_of_int (- 100000)"
    by (rule double_of_int) simp
  have "double x \<le> double (real_of_int 1000)" using assms by (intro double_mono) simp
  then have x1: "double x \<le> 1000" unfolding d by simp
  have "double (- real_of_int 1000) \<le> double x" using assms by (intro double_mono) simp
  then have x0: "- 1000 \<le> double x" unfolding double_minus d by simp
  have f: "fmul x 100 = double (double x * 100)"
    by (simp add: fmul_def double_numeral_small)
  have "double (double x * 100) \<le> double (real_of_int 100000)"
    using x1 by (intro double_mono) simp
  then have y1: "double (fmul x 100) \<le> real_of_int 100000"
    unfolding f double_double e .
  have "double (real_of_int (- 100000)) \<le> double (double x * 100)"
    using x0 by (intro double_mono) simp
  then have y0: "real_of_int (- 100000) \<le> double (fmul x 100)"
    unfolding f double_double e' .
  have "- 100000 \<le> js_round (fmul x 100) \<and> js_round (fmul x 100) \<le> 100000"
    using y0 y1 by (intro js_round_between) simp_all
  then have "\<bar>js_round (fmul x 100)\<bar> \<le> 100000" by linarith
  also have "(100000::int) < 2 ^ 50" by simp
  finally show ?thesis .
qed

lemma getGridId_inj:
  assumes "\<bar>lat1\<bar> \<le> 1000" and "\<bar>lng1\<bar> \<le> 1000"
    and "\<bar>lat2\<bar> \<le> 1000" and "\<bar>lng2\<bar> \<le> 1000"
    and "getGridId lat1 lng1 = getGridId lat2 lng2"
  shows "js_round (fmul lat1 100) = js_round (fmul lat2 100)
       \<and> js_round (fmul lng1 100) = js_round (fmul lng2 100)"
proof -
  note b = hundredths_bound [OF assms(1)] hundredths_bound [OF assms(2)]
    hundredths_bound [OF assms(3)] hundredths_bound [OF assms(4)]
  have "toFixed2 (fdiv (real_of_int (js_round (fmul lat1 100))) 100)
          = toFixed2 (fdiv (real_of_int (js_round (fmul lat2 100))) 100)
      \<and> toFixed2 (fdiv (real_of_int (js_round (fmul lng1 100))) 100)
          = toFixed2 (fdiv (real_of_int (js_round (fmul lng2 100))) 100)"
    using assms(5) unfolding getGridId_unfold
    by (intro underscore_split toFixed2_decode(3) b)
  then show ?thesis
    using toFixed2_inj [OF b(1) b(3)] toFixed2_inj [OF b(2) b(4)] by simp
qed

text \<open>
  C8 (as amended). \<open>getGridId\<close> rounds the hundredths of each coordinate, computed in double
  arithmetic, to an integer and prints it with two decimals: coordinates whose hundredths
  round to the same integers get the same key, and coordinates of magnitude up to 1000 with
  the same key have the same rounded hundredths. \<open>getGridId(12.3456, 77.6543)\<close> is
  \<open>12.35_77.65\<close>, the key of \<open>(12.3451, 77.6549)\<close> too; it differs from
  \<open>getGridId(12.3449, 77.6549) = 12.34_77.65\<close>, since 12.3449 rounds down to 12.34, and from
  \<open>getGridId(12.36, 77.6543) = 12.36_77.65\<close>. Trailing zeros and the sign are printed:
  \<open>getGridId(-12.3456, 77.6)\<close> is \<open>-12.35_77.60\<close>. The hundredths are those of the double:
  \<open>1.045 * 100\<close> is 104.5 and \<open>1.005 * 100\<close> is below 100.5, so \<open>getGridId(1.045, 0)\<close> is
  \<open>1.05_0.00\<close> and \<open>getGridId(1.005, 0)\<close> is \<open>1.00_0.00\<close>.
\<close>

theorem getGridId_quantizes:
  "(js_round (fmul lat1 100) = js_round (fmul lat2 100)
      \<and> js_round (fmul lng1 100) = js_round (fmul lng2 100)
      \<longrightarrow> getGridId lat1 lng1 = getGridId lat2 lng2)
   \<and> (\<bar>lat1\<bar> \<le> 1000 \<and> \<bar>lng1\<bar> \<le> 1000 \<and> \<bar>lat2\<bar> \<le> 1000 \<and> \<bar>lng2\<bar> \<le> 1000
      \<and> getGridId lat1 lng1 = getGridId lat2 lng2
      \<longrightarrow> js_round (fmul lat1 100) = js_round (fmul lat2 100)
          \<and> js_round (fmul lng1 100) = js_round (fmul lng2 100))
   \<and> getGridId 12.3456 77.6543 = ''12.35_77.65''
   \<and> getGridId 12.3451 77.6549 = getGridId 12.3456 77.6543
   \<and> getGridId 12.3449 77.6549 = ''12.34_77.65''
   \<and> getGridId 12.3456 77.6543 \<noteq> getGridId 12.3449 77.6549
   \<and> getGridId 12.36 77.6543 = ''12.36_77.65''
   \<and> getGridId 12.3456 77.6543 \<noteq> getGridId 12.36 77.6543
   \<and> getGridId (- 12.3456) 77.6 = ''-12.35_77.60''
   \<and> getGridId 1.045 0 = ''1.05_0.00''
   \<and> getGridId 1.005 0 = ''1.00_0.00''"
proof -
  have q: "js_round (fmul lat1 100) = js_round (fmul lat2 100)
      \<and> js_round (fmul lng1 100) = js_round (fmul lng2 100)
      \<longrightarrow> getGridId lat1 lng1 = getGridId lat2 lng2"
    by (simp add: getGridId_def)
  have i: "\<bar>lat1\<bar> \<le> 1000 \<and> \<bar>lng1\<bar> \<le> 1000 \<and> \<bar>lat2\<bar> \<le> 1000 \<and> \<bar>lng2\<bar> \<le> 1000
      \<and> getGridId lat1 lng1 = getGridId lat2 lng2
      \<longrightarrow> js_round (fmul lat1 100) = js_round (fmul lat2 100)
          \<and> js_round (fmul lng1 100) = js_round (fmul lng2 100)"
    using getGridId_inj [of lat1 lng1 lat2 lng2] by (intro impI) (elim conjE)
  have e: "getGridId 12.3456 77.6543 = ''12.35_77.65''
   \<and> getGridId 12.3451 77.6549 = getGridId 12.3456 77.6543
   \<and> getGridId 12.3449 77.6549 = ''12.34_77.65''
   \<and> getGridId 12.3456 77.6543 \<noteq> getGridId 12.3449 77.6549
   \<and> getGridId 12.36 77.6543 = ''12.36_77.65''
   \<and> getGridId 12.3456 77.6543 \<noteq> getGridId 12.36 77.6543
   \<and> getGridId (- 12.3456) 77.6 = ''-12.35_77.60''
   \<and> getGridId 1.045 0 = ''1.05_0.00''
   \<and> getGridId 1.005 0 = ''1.00_0.00''"
    unfolding grid_a grid_b grid_c grid_d grid_f grid_g grid_h by simp
  show ?thesis
    by (rule conjI [OF q conjI [OF i e]])
qed

theorem getGridId_quantizes_witness:
  "js_round (fmul 12.3456 100) = js_round (fmul 12.3451 100)
   \<and> js_round (fmul 77.6543 100) = js_round (fmul 77.6549 100)
   \<and> getGridId 12.3456 77.6543 = getGridId 12.3451 77.6549
   \<and> \<bar>12.35::real\<bar> \<le> 1000 \<and> \<bar>77.65::real\<bar> \<le> 1000
   \<and> \<bar>12.3451::real\<bar> \<le> 1000 \<and> \<bar>77.6549::real\<bar> \<le> 1000
   \<and> getGridId 12.35 77.65 = getGridId 12.3451 77.6549
   \<and> js_round (fmul 12.35 100) = js_round (fmul 12.3451 100)
   \<and> js_round (fmul 77.65 100) = js_round (fmul 77.6549 100)"
proof -
  have r: "js_round (fmul 12.3456 100) = js_round (fmul 12.3451 100)
      \<and> js_round (fmul 77.6543 100) = js_round (fmul 77.6549 100)"
    unfolding grid_rounds by simp
  note t = getGridId_quantizes [of "12.3456" "12.3451" "77.6543" "77.6549"]
  have a: "getGridId 12.3456 77.6543 = getGridId 12.3451 77.6549"
    by (rule t [THEN conjunct1, THEN mp, OF r])
  have b: "\<bar>12.35::real\<bar> \<le> 1000 \<and> \<bar>77.65::real\<bar> \<le> 1000
      \<and> \<bar>12.3451::real\<bar> \<le> 1000 \<and> \<bar>77.6549::real\<bar> \<le> 1000"
    by simp
  have g: "getGridId 12.35 77.65 = getGridId 12.3451 77.6549"
    unfolding grid_e grid_d ..
  have h: "\<bar>12.35::real\<bar> \<le> 1000 \<and> \<bar>77.65::real\<bar> \<le> 1000
      \<and> \<bar>12.3451::real\<bar> \<le> 1000 \<and> \<bar>77.6549::real\<bar> \<le> 1000
      \<and> getGridId 12.35 77.65 = getGridId 12.3451 77.6549"
    using b g by (simp only: simp_thms)
  note u = getGridId_quantizes [of "12.35" "12.3451" "77.65" "77.6549"]
  have c: "js_round (fmul 12.35 100) = js_round (fmul 12.3451 100)
      \<and> js_round (fmul 77.65 100) = js_round (fmul 77.6549 100)"
    by (rule u [THEN conjunct2, THEN conjunct1, THEN mp, OF h])
  show ?thesis
    by (rule conjI [OF r [THEN conjunct1] conjI [OF r [THEN conjunct2] conjI [OF a
          conjI [OF b [THEN conjunct1] conjI [OF b [THEN conjunct2, THEN conjunct1]
          conjI [OF b [THEN conjunct2, THEN conjunct2, THEN conjunct1]
          conjI [OF b [THEN conjunct2, THEN conjunct2, THEN conjunct2] conjI [OF g c]]]]]]]])
qed

text \<open>
  C8 as written says that \<open>(12.3456, 77.6543)\<close> and \<open>(12.3449, 77.6549)\<close> share a cell.
  Their latitudes round to 12.35 and 12.34.
\<close>

theorem getGridId_same_cell_counterexample:
  "getGridId 12.3456 77.6543 \<noteq> getGridId 12.3449 77.6549"
  unfolding grid_a grid_b by simp

section \<open>Route community score\<close>

lemma unique_fold:
  assumes "distinct acc"
  shows "distinct (fold (\<lambda>x acc. if x \<in> set acc then acc else acc @ [x]) xs acc)
       \<and> set (fold (\<lambda>x acc. if x \<in> set acc then acc else acc @ [x]) xs acc) = set acc \<union> set xs"
  using assms by (induction xs arbitrary: acc) auto

lemma unique_distinct: "distinct (unique xs)"
  using unique_fold [of "[]" xs] by (simp add: unique_def)

lemma unique_set: "set (unique xs) = set xs"
  using unique_fold [of "[]" xs] by (simp add: unique_def)

lemma unique_fold_fresh:
  assumes "distinct xs" and "set xs \<inter> set acc = {}"
  shows "fold (\<lambda>x acc. if x \<in> set acc then acc else acc @ [x]) xs acc = acc @ xs"
  using assms by (induction xs arbitrary: acc) auto

lemma unique_idem: "unique (unique xs) = unique xs"
  using unique_fold_fresh [OF unique_distinct, of xs "[]"] by (simp add: unique_def)

lemma map_set_fresh: "k \<notin> fst ` set es \<Longrightarrow> map_set k v es = es @ [(k, v)]"
  by (induction es) auto

lemma scores_fold:
  assumes "distinct ids" and "set ids \<inter> fst ` set acc = {}"
  shows "fold (\<lambda>gridId scores. map_set gridId (h gridId) scores) ids acc
           = acc @ map (\<lambda>g. (g, h g)) ids"
  using assms
proof (induction ids arbitrary: acc)
  case Nil
  then show ?case by simp
next
  case (Cons g gs)
  have fresh: "g \<notin> fst ` set acc" using Cons.prems(2) by auto
  have "set gs \<inter> fst ` set (acc @ [(g, h g)]) = {}"
    using Cons.prems by auto
  then have "fold (\<lambda>gridId scores. map_set gridId (h gridId) scores) gs (acc @ [(g, h g)])
      = (acc @ [(g, h g)]) @ map (\<lambda>g. (g, h g)) gs"
    using Cons.prems(1) by (intro Cons.IH) simp_all
  then show ?case by (simp add: map_set_fresh [OF fresh])
qed

lemma getMultipleAreaSafetyScores_entries:
  "getMultipleAreaSafetyScores db gridIds
     = map (\<lambda>g. (g, getAreaSafetyScore db g)) (unique gridIds)"
  using scores_fold [OF unique_distinct, of gridIds "[]" "getAreaSafetyScore db"]
  by (simp add: getMultipleAreaSafetyScores_def Let_def)

lemma totals_fold:
  "fold (\<lambda>entry acc. (fst acc + snd entry, if snd entry \<noteq> 50 then snd acc + 1 else snd acc))
     es (t, c)
   = (t + sum_list (map snd es), c + int (length (filter (\<lambda>e. snd e \<noteq> (50::int)) es)))"
  by (induction es arbitrary: t c) auto

text \<open>
  What \<open>calculateRouteCommunityScore\<close> computes for a non-empty route: over the distinct
  cells of the points, the number of cells, the rounded mean of their scores, and the number
  of cells whose score is not 50.
\<close>

lemma calculateRouteCommunityScore_eq:
  assumes "routePoints \<noteq> []"
  shows "calculateRouteCommunityScore db routePoints =
     (let ids = unique (map (\<lambda>point. getGridId (lat point) (lng point)) routePoints)
      in \<lparr>score = js_round (fdiv (real_of_int (sum_list (map (getAreaSafetyScore db) ids)))
                              (real (length ids))),
          coveredGrids = int (length (filter (\<lambda>g. getAreaSafetyScore db g \<noteq> 50) ids)),
          totalGrids = int (card (set (map (\<lambda>point. getGridId (lat point) (lng point))
                                          routePoints)))\<rparr>)"
proof -
  define ids where "ids = unique (map (\<lambda>point. getGridId (lat point) (lng point)) routePoints)"
  have ne: "ids \<noteq> []"
    using assms unique_set [of "map (\<lambda>point. getGridId (lat point) (lng point)) routePoints"]
    unfolding ids_def by (cases routePoints) auto
  have card: "card (set (map (\<lambda>point. getGridId (lat point) (lng point)) routePoints))
      = length ids"
    unfolding ids_def using unique_distinct unique_set by (metis distinct_card)
  have sc: "getMultipleAreaSafetyScores db ids = map (\<lambda>g. (g, getAreaSafetyScore db g)) ids"
    unfolding getMultipleAreaSafetyScores_entries ids_def unique_idem ..
  have tot: "fold (\<lambda>entry acc.
                (fst acc + snd entry, if snd entry \<noteq> 50 then snd acc + 1 else snd acc))
             (map (\<lambda>g. (g, getAreaSafetyScore db g)) ids) (0, 0)
      = (sum_list (map (getAreaSafetyScore db) ids),
         int (length (filter (\<lambda>g. getAreaSafetyScore db g \<noteq> 50) ids)))"
    unfolding totals_fold by (simp add: comp_def filter_map)
  show ?thesis
    unfolding calculateRouteCommunityScore_def Let_def ids_def [symmetric] sc tot card
    using assms ne by simp
qed

text \<open>
  C10. The claim counts as covered every cell with at least one recorded report. The code
  counts the cells whose score is not 50: a cell with one safe and one unsafe report scores
  50 and is not counted. Here a route of one point in such a cell.
\<close>

theorem calculateRouteCommunityScore_balanced_cell:
  "areas \<lparr>areas = (\<lambda>g. if g = ''12.35_77.65''
                          then Inr (Some \<lparr>safeCount = 1, unsafeCount = 1, lastUpdated = Some 0\<rparr>)
                          else Inr None),
          userGridFeedbacks = (\<lambda>k. Inr None)\<rparr> (getGridId 12.35 77.65)
     = Inr (Some \<lparr>safeCount = 1, unsafeCount = 1, lastUpdated = Some 0\<rparr>)
   \<and> calculateRouteCommunityScore
       \<lparr>areas = (\<lambda>g. if g = ''12.35_77.65''
                        then Inr (Some \<lparr>safeCount = 1, unsafeCount = 1, lastUpdated = Some 0\<rparr>)
                        else Inr None),
        userGridFeedbacks = (\<lambda>k. Inr None)\<rparr>
       [\<lparr>lat = 12.35, lng = 77.65\<rparr>]
     = \<lparr>score = 50, coveredGrids = 0, totalGrids = 1\<rparr>"
proof -
  let ?cell = "\<lparr>safeCount = 1, unsafeCount = 1, lastUpdated = Some 0\<rparr>"
  let ?db = "\<lparr>areas = (\<lambda>g. if g = ''12.35_77.65'' then Inr (Some ?cell) else Inr None),
              userGridFeedbacks = (\<lambda>k. Inr None)\<rparr>"
  have ids: "map (\<lambda>point. getGridId (lat point) (lng point)) [\<lparr>lat = 12.35, lng = 77.65\<rparr>]
               = [''12.35_77.65'']"
    by (simp only: list.map Point.select_convs grid_e)
  have sc: "getAreaSafetyScore ?db ''12.35_77.65'' = 50"
    by (simp add: getAreaSafetyScore_def getAreaSafetyData_def calculateAreaSafetyScore_def
        js_round_def fadd_def fmul_def fdiv_def double_eval)
  have un: "unique [''12.35_77.65''] = [''12.35_77.65'']"
    by (simp add: unique_def)
  have ms: "getMultipleAreaSafetyScores ?db [''12.35_77.65''] = [(''12.35_77.65'', 50)]"
    unfolding getMultipleAreaSafetyScores_def Let_def un by (simp add: sc)
  have rd: "areas ?db (getGridId 12.35 77.65) = Inr (Some ?cell)"
    unfolding grid_e by simp
  have rs: "calculateRouteCommunityScore ?db [\<lparr>lat = 12.35, lng = 77.65\<rparr>]
              = \<lparr>score = 50, coveredGrids = 0, totalGrids = 1\<rparr>"
    unfolding calculateRouteCommunityScore_def Let_def ids un ms
    by (simp add: js_round_def fdiv_def double_eval)
  show ?thesis
    by (rule conjI [OF rd rs])
qed


section \<open>Relative score\<close>

lemma findIndexFrom_takeWhile:
  "findIndexFrom i p xs =
     (if \<exists>x\<in>set xs. p x then i + int (length (takeWhile (\<lambda>x. \<not> p x) xs)) else - 1)"
  by (induction xs arbitrary: i) auto

lemma takeWhile_not_length:
  "\<exists>x\<in>set xs. p x \<Longrightarrow> length (takeWhile (\<lambda>x. \<not> p x) xs) < length xs"
  by (induction xs) auto

lemma findIndex_found:
  assumes "x \<in> set xs" and "p x"
  shows "0 \<le> findIndex p xs \<and> findIndex p xs < int (length xs)
         \<and> p (xs ! nat (findIndex p xs))"
proof -
  let ?k = "length (takeWhile (\<lambda>x. \<not> p x) xs)"
  have ex: "\<exists>x\<in>set xs. p x" using assms by blast
  have f: "findIndex p xs = int ?k"
    using ex by (simp add: findIndex_def findIndexFrom_takeWhile)
  have lt: "?k < length xs"
    using ex by (rule takeWhile_not_length)
  have "\<not> (\<lambda>x. \<not> p x) (xs ! ?k)"
    using lt by (rule nth_length_takeWhile)
  then show ?thesis
    using f lt by simp
qed

lemma scoreOne_rank:
  "rank (scoreOne env n srt risks rr) =
     findIndex (\<lambda>r. RouteInputData.routeId (route_of r) = RouteInputData.routeId (fst rr)) srt
       + 1"
  by (simp add: scoreOne_def Let_def split_beta)

lemma scoreOne_safetyScore:
  "safetyScore (scoreOne env n srt risks rr) =
     calculateRelativeScore (rank (scoreOne env n srt risks rr)) n (snd (snd rr)) risks"
  by (simp add: scoreOne_def Let_def split_beta)

lemma scoreOne_safetyCategory:
  "safetyCategory (scoreOne env n srt risks rr) =
     getSafetyCategory (rank (scoreOne env n srt risks rr)) n"
  by (simp add: scoreOne_def Let_def split_beta)

lemma scoreOne_riskFactors: "riskFactors (scoreOne env n srt risks rr) = fst (snd rr)"
  by (simp add: scoreOne_def Let_def split_beta)

lemma scoreOne_routeId:
  "SafetyResult.routeId (scoreOne env n srt risks rr) = RouteInputData.routeId (fst rr)"
  by (simp add: scoreOne_def Let_def split_beta)

lemma scoreOne_highlights:
  "highlights (scoreOne env n srt risks rr) =
     generateHighlights (fst (snd rr)) (rank (scoreOne env n srt risks rr)) n env"
  by (simp add: scoreOne_def Let_def split_beta)

lemma routeRisksOf_length: "length (routeRisksOf routes env) = length routes"
  by (simp add: routeRisksOf_def)

lemma routeRisksOf_nth:
  "i < length routes \<Longrightarrow>
     routeRisksOf routes env ! i = (routes ! i, calculateRawRiskScore (routes ! i) env)"
  by (simp add: routeRisksOf_def)

lemma results_length: "length (calculateMultipleRoutesSafety routes env) = length routes"
  by (simp add: calculateMultipleRoutesSafety_def Let_def routeRisksOf_length)

lemma results_nth:
  assumes "i < length routes"
  shows "calculateMultipleRoutesSafety routes env ! i =
           scoreOne env (int (length routes))
             (sort_key totalRisk_of (routeRisksOf routes env))
             (map totalRisk_of (routeRisksOf routes env))
             (routeRisksOf routes env ! i)"
proof -
  have ne: "length routes \<noteq> 0" using assms by auto
  show ?thesis
    using assms ne
    by (simp add: calculateMultipleRoutesSafety_def Let_def routeRisksOf_length)
qed

lemma results_risk:
  assumes "i < length routes"
  shows "totalRawRisk (riskFactors (calculateMultipleRoutesSafety routes env ! i))
           = totalRisk_of (routeRisksOf routes env ! i)"
  by (simp add: results_nth [OF assms] scoreOne_riskFactors routeRisksOf_nth [OF assms]
      rawRisk_total totalRisk_of_def)

lemma results_risks:
  "map (\<lambda>q. totalRawRisk (riskFactors q)) (calculateMultipleRoutesSafety routes env)
     = map totalRisk_of (routeRisksOf routes env)"
  by (rule nth_equalityI) (simp_all add: results_length routeRisksOf_length results_risk)

lemma results_rank_found:
  assumes "i < length routes"
  shows "1 \<le> rank (calculateMultipleRoutesSafety routes env ! i)
         \<and> rank (calculateMultipleRoutesSafety routes env ! i) \<le> int (length routes)"
proof -
  let ?rs = "routeRisksOf routes env"
  let ?S = "sort_key totalRisk_of ?rs"
  let ?p = "\<lambda>r. RouteInputData.routeId (route_of r) = RouteInputData.routeId (routes ! i)"
  have "?rs ! i \<in> set ?rs"
    using assms by (simp add: routeRisksOf_length)
  then have m: "?rs ! i \<in> set ?S" by simp
  have p: "?p (?rs ! i)"
    by (simp add: routeRisksOf_nth [OF assms] route_of_def)
  have "0 \<le> findIndex ?p ?S \<and> findIndex ?p ?S < int (length ?S)"
    using findIndex_found [OF m, of ?p] p by blast
  then show ?thesis
    by (simp add: results_nth [OF assms] scoreOne_rank routeRisksOf_length
        routeRisksOf_nth [OF assms])
qed

lemma results_risk_double:
  assumes "i < length routes"
  shows "double (totalRisk_of (routeRisksOf routes env ! i))
           = totalRisk_of (routeRisksOf routes env ! i)"
  by (simp add: routeRisksOf_nth [OF assms] totalRisk_of_def rawRisk_double)

lemma results_risks_double:
  "map double (map totalRisk_of (routeRisksOf routes env))
     = map totalRisk_of (routeRisksOf routes env)"
  by (rule nth_equalityI) (simp_all add: routeRisksOf_length results_risk_double)

lemma double_hundredth_pos: "0 < double (1 / 100)"
  by (simp add: double_eval)

lemma double_sub_unit:
  assumes "0 \<le> double a" and "double a \<le> 1"
  shows "0 \<le> fsub 1 a \<and> fsub 1 a \<le> 1"
proof -
  have "double 0 \<le> double (1 - double a)" using assms(2) by (intro double_mono) simp
  moreover have "double (1 - double a) \<le> double 1" using assms(1) by (intro double_mono) simp
  ultimately show ?thesis by (simp add: fsub_def double_0 double_1)
qed

lemma position_unit:
  assumes "t \<in> set risks" and "map double risks = risks"
  shows "0 \<le> (if flt (fsub (Max (set risks)) (Min (set risks))) (1 / 100) then 7 / 10
               else fsub 1 (fdiv (fsub t (Min (set risks)))
                                 (fsub (Max (set risks)) (Min (set risks)))))
       \<and> (if flt (fsub (Max (set risks)) (Min (set risks))) (1 / 100) then 7 / 10
               else fsub 1 (fdiv (fsub t (Min (set risks)))
                                 (fsub (Max (set risks)) (Min (set risks))))) \<le> (1::real)"
proof -
  let ?mn = "Min (set risks)" and ?mx = "Max (set risks)"
  have d: "double x = x" if "x \<in> set risks" for x
    using that assms(2) by (metis in_set_conv_nth length_map nth_map)
  have ne: "set risks \<noteq> {}" using assms(1) by auto
  have dt: "double t = t" using assms(1) by (rule d)
  have dmn: "double ?mn = ?mn" using ne by (intro d Min_in) simp
  have dmx: "double ?mx = ?mx" using ne by (intro d Max_in) simp
  have lo: "?mn \<le> t" using assms(1) by simp
  have hi: "t \<le> ?mx" using assms(1) by simp
  have sp: "fsub ?mx ?mn = double (?mx - ?mn)" by (simp add: fsub_def dmx dmn)
  have nu: "fsub t ?mn = double (t - ?mn)" by (simp add: fsub_def dt dmn)
  show ?thesis
  proof (cases "flt (fsub ?mx ?mn) (1 / 100)")
    case True
    then show ?thesis by simp
  next
    case False
    then have "double (1 / 100) \<le> fsub ?mx ?mn"
      by (simp add: flt_def double_fsub)
    then have pos: "0 < fsub ?mx ?mn" using double_hundredth_pos by linarith
    have a: "0 \<le> fsub t ?mn" unfolding nu using lo by (intro double_nonneg) simp
    have b: "fsub t ?mn \<le> fsub ?mx ?mn" unfolding nu sp using hi by (intro double_mono) simp
    let ?q = "fsub t ?mn / fsub ?mx ?mn"
    have q0: "0 \<le> ?q" using a pos by simp
    have q1: "?q \<le> 1" using b pos by (simp add: divide_le_eq)
    have f: "fdiv (fsub t ?mn) (fsub ?mx ?mn) = double ?q"
      by (simp add: fdiv_def double_fsub)
    have "0 \<le> double ?q" using q0 by (rule double_nonneg)
    moreover have "double ?q \<le> 1" using double_mono [OF q1] by (simp add: double_1)
    ultimately have "0 \<le> fsub 1 (double ?q) \<and> fsub 1 (double ?q) \<le> 1"
      by (intro double_sub_unit) (simp_all add: double_double)
    then show ?thesis using False unfolding f by simp
  qed
qed

lemma band_round:
  fixes lo hi :: int and pos :: real
  assumes "lo \<le> hi" and "\<bar>lo\<bar> \<le> 1000" and "\<bar>hi\<bar> \<le> 1000" and "0 \<le> pos" and "pos \<le> 1"
  shows "lo \<le> js_round (fadd (of_int lo) (fmul (fsub (of_int hi) (of_int lo)) pos))
       \<and> js_round (fadd (of_int lo) (fmul (fsub (of_int hi) (of_int lo)) pos)) \<le> hi"
proof -
  have dl: "double (real_of_int lo) = real_of_int lo"
    using assms(2) by (rule double_int_small)
  have dh: "double (real_of_int hi) = real_of_int hi"
    using assms(3) by (rule double_int_small)
  have "double (real_of_int (hi - lo)) = real_of_int (hi - lo)"
    using assms(1,2,3) by (intro double_of_int) simp
  then have w: "fsub (of_int hi) (of_int lo) = real_of_int hi - real_of_int lo"
    by (simp add: fsub_def dl dh)
  have w0: "0 \<le> real_of_int hi - real_of_int lo" using assms(1) by simp
  have p0: "0 \<le> double pos" using assms(4) by (rule double_nonneg)
  have p1: "double pos \<le> 1" using double_mono [OF assms(5)] by (simp add: double_1)
  let ?m = "fmul (fsub (of_int hi) (of_int lo)) pos"
  have m: "?m = double ((real_of_int hi - real_of_int lo) * double pos)"
    unfolding w fmul_def using \<open>double (real_of_int (hi - lo)) = real_of_int (hi - lo)\<close>
    by simp
  have "double 0 \<le> ?m" unfolding m using w0 p0 by (intro double_mono) simp
  then have m0: "0 \<le> ?m" by (simp add: double_0)
  have "(real_of_int hi - real_of_int lo) * double pos \<le> (real_of_int hi - real_of_int lo) * 1"
    using w0 p1 by (rule mult_left_mono [rotated])
  then have "?m \<le> double (real_of_int (hi - lo))" unfolding m by (intro double_mono) simp
  then have m1: "?m \<le> real_of_int hi - real_of_int lo"
    using \<open>double (real_of_int (hi - lo)) = real_of_int (hi - lo)\<close> by simp
  let ?s = "fadd (of_int lo) ?m"
  have s: "?s = double (real_of_int lo + ?m)" by (simp add: fadd_def dl double_fmul)
  have "double (real_of_int lo) \<le> ?s" unfolding s using m0 by (intro double_mono) simp
  then have s0: "real_of_int lo \<le> double ?s" by (simp add: dl double_fadd)
  have "?s \<le> double (real_of_int hi)" unfolding s using m1 by (intro double_mono) simp
  then have s1: "double ?s \<le> real_of_int hi" by (simp add: dh double_fadd)
  show ?thesis
    using assms(2,3) by (intro js_round_between s0 s1) simp_all
qed

lemma relative_single:
  "calculateRelativeScore r 1 t risks
     = js_round (fmax 55 (fmin 90 (fadd (fmul (fsub 1 t) 100) 15)))
   \<and> 55 \<le> calculateRelativeScore r 1 t risks \<and> calculateRelativeScore r 1 t risks \<le> 90"
proof -
  let ?x = "fadd (fmul (fsub 1 t) 100) 15"
  have e: "calculateRelativeScore r 1 t risks = js_round (fmax 55 (fmin 90 ?x))"
    by (simp add: calculateRelativeScore_def)
  have v: "fmax 55 (fmin 90 ?x) = max 55 (min 90 ?x)"
    by (simp add: fmax_def fmin_def double_numeral_small double_fadd min_def double_double)
  have "real_of_int 55 \<le> double (fmax 55 (fmin 90 ?x))"
    and "double (fmax 55 (fmin 90 ?x)) \<le> real_of_int 90"
    unfolding double_fmax unfolding v by simp_all
  then have "55 \<le> js_round (fmax 55 (fmin 90 ?x)) \<and> js_round (fmax 55 (fmin 90 ?x)) \<le> 90"
    by (intro js_round_between) simp_all
  then show ?thesis unfolding e by simp
qed

lemma relative_multi:
  assumes "n \<noteq> 1" and "t \<in> set risks" and "map double risks = risks"
  shows "calculateRelativeScore r n t risks =
     js_round (fadd (of_int (if r = 1 then 75 else if r = n then 42 else 58))
        (fmul (fsub (of_int (if r = 1 then 92 else if r = n then 57 else 74))
                    (of_int (if r = 1 then 75 else if r = n then 42 else 58)))
          (if flt (fsub (Max (set risks)) (Min (set risks))) (1 / 100) then 7 / 10
           else fsub 1 (fdiv (fsub t (Min (set risks)))
                             (fsub (Max (set risks)) (Min (set risks)))))))"
proof -
  obtain x xs where c: "risks = x # xs"
    using assms(2) by (cases risks) auto
  have mn: "fold min xs x = Min (set risks)"
    unfolding c by (simp only: Min.set_eq_fold)
  have mx: "fold max xs x = Max (set risks)"
    unfolding c by (simp only: Max.set_eq_fold)
  have md: "map double (x # xs) = x # xs"
    using assms(3) unfolding c .
  have "calculateRelativeScore r n t (x # xs) =
     js_round (fadd (of_int (if r = 1 then 75 else if r = n then 42 else 58))
        (fmul (fsub (of_int (if r = 1 then 92 else if r = n then 57 else 74))
                    (of_int (if r = 1 then 75 else if r = n then 42 else 58)))
          (if flt (fsub (fold max xs x) (fold min xs x)) (1 / 100) then 7 / 10
           else fsub 1 (fdiv (fsub t (fold min xs x))
                             (fsub (fold max xs x) (fold min xs x))))))"
    using assms(1) unfolding calculateRelativeScore_def md
    by (simp add: RELATIVE_SCORE_RANGES_def Let_def)
  then show ?thesis
    unfolding mn mx c [symmetric] .
qed

text \<open>
  C1. For a non-empty batch of \<open>N\<close> routes and any environment, the result at each position
  has a rank between 1 and \<open>N\<close>, and its score follows from the rank, every operation being
  the one on doubles. For \<open>N = 1\<close> the score is
  \<open>round(clamp(55, 90, (1 - totalRawRisk) * 100 + 15))\<close>, between 55 and 90, and the
  category is the safest option. For \<open>N > 1\<close> the band is [75,92] for rank 1, [42,57] for
  rank \<open>N\<close> and [58,74] for a rank in between; the score is the rounded linear interpolation
  in the band at position \<open>1 - (risk - min) / spread\<close>, or at 0.7 when
  \<open>spread = max - min < 0.01\<close>, and lies in the band; the category is the safest option for
  rank 1, the least safe option for rank \<open>N\<close> and the moderate option otherwise.
\<close>

theorem relative_score_bands:
  assumes "i < length routes"
  shows
    "(let n = int (length routes);
          res = calculateMultipleRoutesSafety routes env;
          r = res ! i;
          risk = totalRawRisk (riskFactors r);
          allRisks = map (\<lambda>q. totalRawRisk (riskFactors q)) res;
          spread = fsub (Max (set allRisks)) (Min (set allRisks));
          pos = (if flt spread (1 / 100) then 7 / 10
                 else fsub 1 (fdiv (fsub risk (Min (set allRisks))) spread));
          lo = (if rank r = 1 then 75 else if rank r = n then 42 else 58);
          hi = (if rank r = 1 then 92 else if rank r = n then 57 else 74)
      in 1 \<le> rank r \<and> rank r \<le> n
       \<and> (n = 1 \<longrightarrow>
             safetyScore r = js_round (fmax 55 (fmin 90 (fadd (fmul (fsub 1 risk) 100) 15)))
             \<and> 55 \<le> safetyScore r \<and> safetyScore r \<le> 90
             \<and> safetyCategory r = Safest_Option)
       \<and> (n > 1 \<longrightarrow>
             safetyScore r = js_round (fadd (of_int lo) (fmul (fsub (of_int hi) (of_int lo)) pos))
             \<and> 0 \<le> pos \<and> pos \<le> 1
             \<and> lo \<le> safetyScore r \<and> safetyScore r \<le> hi
             \<and> (rank r = 1 \<longrightarrow> 75 \<le> safetyScore r \<and> safetyScore r \<le> 92
                    \<and> safetyCategory r = Safest_Option)
             \<and> (rank r = n \<longrightarrow> 42 \<le> safetyScore r \<and> safetyScore r \<le> 57
                    \<and> safetyCategory r = Least_Safe_Option)
             \<and> (rank r \<noteq> 1 \<and> rank r \<noteq> n \<longrightarrow> 58 \<le> safetyScore r \<and> safetyScore r \<le> 74
                    \<and> safetyCategory r = Moderate_Option)))"
proof -
  define n where "n = int (length routes)"
  define res where "res = calculateMultipleRoutesSafety routes env"
  define r where "r = res ! i"
  define risk where "risk = totalRawRisk (riskFactors r)"
  define allRisks where "allRisks = map (\<lambda>q. totalRawRisk (riskFactors q)) res"
  define pos where "pos = (if flt (fsub (Max (set allRisks)) (Min (set allRisks))) (1 / 100)
      then 7 / 10
      else fsub 1 (fdiv (fsub risk (Min (set allRisks)))
                        (fsub (Max (set allRisks)) (Min (set allRisks)))))"
  define lo :: int where "lo = (if rank r = 1 then 75 else if rank r = n then 42 else 58)"
  define hi :: int where "hi = (if rank r = 1 then 92 else if rank r = n then 57 else 74)"
  let ?rs = "routeRisksOf routes env"
  have ar: "allRisks = map totalRisk_of ?rs"
    by (simp add: allRisks_def res_def results_risks)
  have ad: "map double allRisks = allRisks"
    unfolding ar by (rule results_risks_double)
  have rk: "risk = totalRisk_of (?rs ! i)"
    by (simp add: risk_def r_def res_def results_risk [OF assms])
  have mem: "risk \<in> set allRisks"
    unfolding ar rk using assms by (simp add: routeRisksOf_length)
  have rank: "1 \<le> rank r \<and> rank r \<le> n"
    unfolding r_def res_def n_def by (rule results_rank_found [OF assms])
  have sc: "safetyScore r = calculateRelativeScore (rank r) n risk allRisks"
    unfolding r_def res_def n_def
    by (simp add: results_nth [OF assms] scoreOne_safetyScore rk ar totalRisk_of_def)
  have cat: "safetyCategory r = getSafetyCategory (rank r) n"
    unfolding r_def res_def n_def
    by (simp add: results_nth [OF assms] scoreOne_safetyCategory)
  have pu: "0 \<le> pos \<and> pos \<le> 1"
    unfolding pos_def by (rule position_unit [OF mem ad])
  have lohi: "lo \<le> hi \<and> \<bar>lo\<bar> \<le> 1000 \<and> \<bar>hi\<bar> \<le> 1000" by (simp add: lo_def hi_def)
  have single: "safetyScore r = js_round (fmax 55 (fmin 90 (fadd (fmul (fsub 1 risk) 100) 15)))
      \<and> 55 \<le> safetyScore r \<and> safetyScore r \<le> 90 \<and> safetyCategory r = Safest_Option"
    if "n = 1"
    unfolding sc cat that using relative_single [of "rank r" risk allRisks]
    by (simp add: getSafetyCategory_def)
  have multi: "safetyScore r
        = js_round (fadd (of_int lo) (fmul (fsub (of_int hi) (of_int lo)) pos))
      \<and> 0 \<le> pos \<and> pos \<le> 1 \<and> lo \<le> safetyScore r \<and> safetyScore r \<le> hi
      \<and> (rank r = 1 \<longrightarrow> 75 \<le> safetyScore r \<and> safetyScore r \<le> 92
             \<and> safetyCategory r = Safest_Option)
      \<and> (rank r = n \<longrightarrow> 42 \<le> safetyScore r \<and> safetyScore r \<le> 57
             \<and> safetyCategory r = Least_Safe_Option)
      \<and> (rank r \<noteq> 1 \<and> rank r \<noteq> n \<longrightarrow> 58 \<le> safetyScore r \<and> safetyScore r \<le> 74
             \<and> safetyCategory r = Moderate_Option)"
    if "n > 1"
  proof -
    have n1: "n \<noteq> 1" using that by simp
    have e: "safetyScore r = js_round (fadd (of_int lo) (fmul (fsub (of_int hi) (of_int lo)) pos))"
      unfolding sc lo_def hi_def pos_def by (rule relative_multi [OF n1 mem ad])
    have b: "lo \<le> safetyScore r \<and> safetyScore r \<le> hi"
      unfolding e using lohi pu by (intro band_round) simp_all
    have c1: "rank r = 1 \<longrightarrow> 75 \<le> safetyScore r \<and> safetyScore r \<le> 92
        \<and> safetyCategory r = Safest_Option"
      using b n1 by (auto simp add: lo_def hi_def cat getSafetyCategory_def split: if_splits)
    have c2: "rank r = n \<longrightarrow> 42 \<le> safetyScore r \<and> safetyScore r \<le> 57
        \<and> safetyCategory r = Least_Safe_Option"
      using b n1 by (auto simp add: lo_def hi_def cat getSafetyCategory_def split: if_splits)
    have c3: "rank r \<noteq> 1 \<and> rank r \<noteq> n \<longrightarrow> 58 \<le> safetyScore r \<and> safetyScore r \<le> 74
        \<and> safetyCategory r = Moderate_Option"
      using b n1 by (auto simp add: lo_def hi_def cat getSafetyCategory_def split: if_splits)
    show ?thesis
      by (rule conjI [OF e conjI [OF pu [THEN conjunct1] conjI [OF pu [THEN conjunct2]
            conjI [OF b [THEN conjunct1] conjI [OF b [THEN conjunct2]
            conjI [OF c1 conjI [OF c2 c3]]]]]]])
  qed
  have s': "n = 1 \<longrightarrow>
             safetyScore r = js_round (fmax 55 (fmin 90 (fadd (fmul (fsub 1 risk) 100) 15)))
             \<and> 55 \<le> safetyScore r \<and> safetyScore r \<le> 90
             \<and> safetyCategory r = Safest_Option"
    using single by (rule impI)
  have m': "n > 1 \<longrightarrow>
             safetyScore r = js_round (fadd (of_int lo) (fmul (fsub (of_int hi) (of_int lo)) pos))
             \<and> 0 \<le> pos \<and> pos \<le> 1
             \<and> lo \<le> safetyScore r \<and> safetyScore r \<le> hi
             \<and> (rank r = 1 \<longrightarrow> 75 \<le> safetyScore r \<and> safetyScore r \<le> 92
                    \<and> safetyCategory r = Safest_Option)
             \<and> (rank r = n \<longrightarrow> 42 \<le> safetyScore r \<and> safetyScore r \<le> 57
                    \<and> safetyCategory r = Least_Safe_Option)
             \<and> (rank r \<noteq> 1 \<and> rank r \<noteq> n \<longrightarrow> 58 \<le> safetyScore r \<and> safetyScore r \<le> 74
                    \<and> safetyCategory r = Moderate_Option)"
    using multi by (rule impI)
  have "1 \<le> rank r \<and> rank r \<le> n
       \<and> (n = 1 \<longrightarrow>
             safetyScore r = js_round (fmax 55 (fmin 90 (fadd (fmul (fsub 1 risk) 100) 15)))
             \<and> 55 \<le> safetyScore r \<and> safetyScore r \<le> 90
             \<and> safetyCategory r = Safest_Option)
       \<and> (n > 1 \<longrightarrow>
             safetyScore r = js_round (fadd (of_int lo) (fmul (fsub (of_int hi) (of_int lo)) pos))
             \<and> 0 \<le> pos \<and> pos \<le> 1
             \<and> lo \<le> safetyScore r \<and> safetyScore r \<le> hi
             \<and> (rank r = 1 \<longrightarrow> 75 \<le> safetyScore r \<and> safetyScore r \<le> 92
                    \<and> safetyCategory r = Safest_Option)
             \<and> (rank r = n \<longrightarrow> 42 \<le> safetyScore r \<and> safetyScore r \<le> 57
                    \<and> safetyCategory r = Least_Safe_Option)
             \<and> (rank r \<noteq> 1 \<and> rank r \<noteq> n \<longrightarrow> 58 \<le> safetyScore r \<and> safetyScore r \<le> 74
                    \<and> safetyCategory r = Moderate_Option))"
    by (rule conjI [OF rank [THEN conjunct1] conjI [OF rank [THEN conjunct2] conjI [OF s' m']]])
  then show ?thesis
    unfolding Let_def n_def [symmetric] res_def [symmetric] r_def [symmetric]
      risk_def [symmetric] allRisks_def [symmetric] pos_def [symmetric]
      lo_def [symmetric] hi_def [symmetric] .
qed

section \<open>Ranking\<close>

lemma index_of_Cons: "index_of (x # xs) a = (if a = x then 0 else Suc (index_of xs a))"
  by (simp add: index_of_def)

lemma index_of_member:
  assumes "a \<in> set xs"
  shows "index_of xs a < length xs \<and> xs ! index_of xs a = a"
proof -
  have ex: "\<exists>x\<in>set xs. x = a" using assms by simp
  have lt: "length (takeWhile (\<lambda>y. \<not> y = a) xs) < length xs"
    using ex by (rule takeWhile_not_length)
  have "\<not> (\<lambda>y. \<not> y = a) (xs ! length (takeWhile (\<lambda>y. \<not> y = a) xs))"
    using lt by (rule nth_length_takeWhile)
  then show ?thesis
    using lt by (simp add: index_of_def)
qed

lemma stable_before_Cons:
  assumes "a \<noteq> x" and "b \<noteq> x" and "stable_before f xs a b"
  shows "stable_before f (x # xs) a b"
  using assms by (simp add: stable_before_def index_of_Cons)

lemma stable_before_head:
  assumes "b \<noteq> x" and "f x \<le> f b"
  shows "stable_before f (x # xs) x b"
  using assms by (auto simp add: stable_before_def index_of_Cons)

lemma stable_before_le: "stable_before f xs a b \<Longrightarrow> f a \<le> f b"
  by (auto simp add: stable_before_def)

lemma stable_before_asym: "stable_before f xs a b \<Longrightarrow> \<not> stable_before f xs b a"
  by (auto simp add: stable_before_def)

lemma stable_before_irrefl: "\<not> stable_before f xs a a"
  by (simp add: stable_before_def)

lemma insort_stable:
  fixes f :: "'a \<Rightarrow> real"
  assumes "sorted_wrt (stable_before f rest) L" and "set L \<subseteq> set rest" and "x \<notin> set rest"
  shows "sorted_wrt (stable_before f (x # rest)) (insort_key f x L)"
  using assms
proof (induction L)
  case Nil
  then show ?case by simp
next
  case (Cons y ys)
  have yx: "y \<noteq> x" using Cons.prems(2,3) by auto
  have ysx: "\<forall>z\<in>set ys. z \<noteq> x" using Cons.prems(2,3) by auto
  have hd: "\<forall>z\<in>set ys. stable_before f rest y z" using Cons.prems(1) by simp
  have tl: "sorted_wrt (stable_before f rest) ys" using Cons.prems(1) by simp
  have lift: "sorted_wrt (stable_before f (x # rest)) (y # ys)"
  proof (rule sorted_wrt_mono_rel [OF _ Cons.prems(1)])
    fix a b
    assume "a \<in> set (y # ys)" and "b \<in> set (y # ys)" and "stable_before f rest a b"
    then show "stable_before f (x # rest) a b"
      using yx ysx by (intro stable_before_Cons) auto
  qed
  show ?case
  proof (cases "f x \<le> f y")
    case True
    have "\<forall>z\<in>set (y # ys). stable_before f (x # rest) x z"
    proof
      fix z
      assume z: "z \<in> set (y # ys)"
      have "f y \<le> f z"
        using z hd by (auto dest: stable_before_le)
      then have "f x \<le> f z" using True by simp
      moreover have "z \<noteq> x" using z yx ysx by auto
      ultimately show "stable_before f (x # rest) x z"
        by (intro stable_before_head)
    qed
    then show ?thesis
      using True lift by simp
  next
    case False
    have ih: "sorted_wrt (stable_before f (x # rest)) (insort_key f x ys)"
      using Cons.IH [OF tl] Cons.prems(2,3) by simp
    have "\<forall>z\<in>set (insort_key f x ys). stable_before f (x # rest) y z"
    proof
      fix z
      assume "z \<in> set (insort_key f x ys)"
      then consider "z = x" | "z \<in> set ys"
        by (auto simp add: set_insort_key)
      then show "stable_before f (x # rest) y z"
      proof cases
        case 1
        then show ?thesis
          using False by (simp add: stable_before_def)
      next
        case 2
        then show ?thesis
          using hd yx ysx by (intro stable_before_Cons) auto
      qed
    qed
    then show ?thesis
      using False ih by simp
  qed
qed

lemma sort_key_stable_before:
  fixes f :: "'a \<Rightarrow> real"
  assumes "distinct xs"
  shows "sorted_wrt (stable_before f xs) (sort_key f xs)"
  using assms
proof (induction xs)
  case Nil
  then show ?case by simp
next
  case (Cons x xs)
  have "sorted_wrt (stable_before f xs) (sort_key f xs)"
    using Cons by simp
  then have "sorted_wrt (stable_before f (x # xs)) (insort_key f x (sort_key f xs))"
    using Cons.prems by (intro insort_stable) simp_all
  then show ?case by (simp add: sort_key_def)
qed

lemma routeRisksOf_ids:
  "map (\<lambda>r. RouteInputData.routeId (route_of r)) (routeRisksOf routes env)
     = map RouteInputData.routeId routes"
  by (simp add: routeRisksOf_def route_of_def comp_def)

lemma routeRisksOf_distinct:
  assumes "distinct (map RouteInputData.routeId routes)"
  shows "distinct (routeRisksOf routes env)"
proof -
  have "distinct (map (\<lambda>r. RouteInputData.routeId (route_of r)) (routeRisksOf routes env))"
    unfolding routeRisksOf_ids by (rule assms)
  then show ?thesis by (simp add: distinct_map)
qed

lemma rank_index:
  assumes d: "distinct (map RouteInputData.routeId routes)" and j: "j < length routes"
  shows "rank (calculateMultipleRoutesSafety routes env ! j)
           = int (index_of (sort_key totalRisk_of (routeRisksOf routes env))
                    (routeRisksOf routes env ! j)) + 1"
proof -
  let ?rs = "routeRisksOf routes env"
  let ?S = "sort_key totalRisk_of ?rs"
  let ?id = "\<lambda>r. RouteInputData.routeId (route_of r)"
  let ?p = "\<lambda>r. ?id r = RouteInputData.routeId (fst (?rs ! j))"
  have mem: "?rs ! j \<in> set ?S"
    using j by (simp add: routeRisksOf_length)
  have pj: "?p (?rs ! j)" by (simp add: route_of_def)
  have inj: "inj_on ?id (set ?rs)"
    using d unfolding routeRisksOf_ids [of routes env, symmetric] distinct_map by simp
  have agree: "(\<not> ?p r) = (r \<noteq> ?rs ! j)" if "r \<in> set ?S" for r
  proof -
    have a: "r \<in> set ?rs" using that by simp
    have b: "?rs ! j \<in> set ?rs" using mem by simp
    have "?id r = ?id (?rs ! j) \<longleftrightarrow> r = ?rs ! j"
      by (rule inj_on_eq_iff [OF inj a b])
    then show ?thesis by (simp add: route_of_def)
  qed
  have tw: "takeWhile (\<lambda>r. \<not> ?p r) ?S = takeWhile (\<lambda>r. r \<noteq> ?rs ! j) ?S"
    by (rule takeWhile_cong [OF refl]) (rule agree)
  have "findIndex ?p ?S = int (length (takeWhile (\<lambda>r. \<not> ?p r) ?S))"
    using mem pj by (auto simp add: findIndex_def findIndexFrom_takeWhile)
  then have "findIndex ?p ?S = int (index_of ?S (?rs ! j))"
    unfolding tw index_of_def .
  then show ?thesis
    by (simp add: results_nth [OF j] scoreOne_rank)
qed

lemma rank_order:
  assumes d: "distinct (map RouteInputData.routeId routes)"
    and j: "j < length routes" and k: "k < length routes"
  shows "rank (calculateMultipleRoutesSafety routes env ! j)
           < rank (calculateMultipleRoutesSafety routes env ! k)
         \<longleftrightarrow> stable_before totalRisk_of (routeRisksOf routes env)
               (routeRisksOf routes env ! j) (routeRisksOf routes env ! k)"
proof -
  let ?rs = "routeRisksOf routes env"
  let ?S = "sort_key totalRisk_of ?rs"
  let ?R = "stable_before totalRisk_of ?rs"
  define mj where "mj = index_of ?S (?rs ! j)"
  define mk where "mk = index_of ?S (?rs ! k)"
  have dr: "distinct ?rs" using d by (rule routeRisksOf_distinct)
  have srt: "sorted_wrt ?R ?S" using dr by (rule sort_key_stable_before)
  have "?rs ! j \<in> set ?S" using j by (simp add: routeRisksOf_length)
  then have pj: "mj < length ?S \<and> ?S ! mj = ?rs ! j"
    unfolding mj_def by (rule index_of_member)
  have "?rs ! k \<in> set ?S" using k by (simp add: routeRisksOf_length)
  then have pk: "mk < length ?S \<and> ?S ! mk = ?rs ! k"
    unfolding mk_def by (rule index_of_member)
  have fwd: "?R (?rs ! j) (?rs ! k)" if "mj < mk"
    using sorted_wrt_nth_less [OF srt that] pj pk by simp
  have bwd: "?R (?rs ! k) (?rs ! j)" if "mk < mj"
    using sorted_wrt_nth_less [OF srt that] pj pk by simp
  have e: "(int mj + 1 < int mk + 1) = (mj < mk)" by linarith
  have "mj < mk \<longleftrightarrow> ?R (?rs ! j) (?rs ! k)"
  proof
    assume "mj < mk"
    then show "?R (?rs ! j) (?rs ! k)" by (rule fwd)
  next
    assume r: "?R (?rs ! j) (?rs ! k)"
    show "mj < mk"
    proof (rule ccontr)
      assume "\<not> mj < mk"
      then consider "mk < mj" | "mk = mj" by linarith
      then show False
      proof cases
        case 1
        then have "?R (?rs ! k) (?rs ! j)" by (rule bwd)
        moreover have "\<not> ?R (?rs ! k) (?rs ! j)" using r by (rule stable_before_asym)
        ultimately show False by simp
      next
        case 2
        then have "?rs ! j = ?rs ! k" using pj pk by simp
        then have "?R (?rs ! k) (?rs ! k)" using r by simp
        then show False by (simp add: stable_before_irrefl)
      qed
    qed
  qed
  then show ?thesis
    unfolding rank_index [OF d j] rank_index [OF d k] mj_def [symmetric] mk_def [symmetric] e .
qed

lemma rank_permutation:
  assumes d: "distinct (map RouteInputData.routeId routes)"
  shows "mset (map rank (calculateMultipleRoutesSafety routes env))
           = mset (map int [1..<length routes + 1])"
proof -
  let ?rs = "routeRisksOf routes env"
  let ?S = "sort_key totalRisk_of ?rs"
  let ?g = "\<lambda>x. int (index_of ?S x) + 1"
  have dS: "distinct ?S"
    using routeRisksOf_distinct [OF d] by simp
  have a: "map rank (calculateMultipleRoutesSafety routes env) = map ?g ?rs"
    by (rule nth_equalityI)
      (simp_all add: results_length routeRisksOf_length rank_index [OF d])
  have b: "map ?g ?S = map int [1..<length routes + 1]"
  proof (rule nth_equalityI)
    show "length (map ?g ?S) = length (map int [1..<length routes + 1])"
      by (simp add: routeRisksOf_length del: upt_Suc)
  next
    fix m
    assume "m < length (map ?g ?S)"
    then have m: "m < length ?S" by simp
    then have mr: "m < length routes" by (simp add: routeRisksOf_length)
    then have "1 + m < length routes + 1" by simp
    then have "[1..<length routes + 1] ! m = 1 + m" by (rule nth_upt)
    moreover have "m < length [1..<length routes + 1]"
      using mr by (simp del: upt_Suc)
    ultimately have "map int [1..<length routes + 1] ! m = int m + 1"
      by (simp only: nth_map)
    moreover have "map ?g ?S ! m = int m + 1"
      using m by (simp add: index_of_nth [OF dS])
    ultimately show "map ?g ?S ! m = map int [1..<length routes + 1] ! m" by simp
  qed
  have "mset (map ?g ?rs) = image_mset ?g (mset ?rs)" by simp
  also have "\<dots> = image_mset ?g (mset ?S)" by simp
  also have "\<dots> = mset (map ?g ?S)" by simp
  finally show ?thesis unfolding a b .
qed

text \<open>
  C2. For routes with pairwise different \<open>routeId\<close>s, \<open>calculateMultipleRoutesSafety\<close>
  returns one result per route, in input order (same ids, and the risk factors of the route
  at the same position); the ranks are a permutation of \<open>1..N\<close>; a route ranks before
  another exactly when its total raw risk is smaller, or equal with the route earlier in the
  input (the stable ascending sort); so ascending rank is ascending risk, and the route of
  rank 1 has a risk no greater than any other. The empty batch returns the empty list.
\<close>

theorem ranks_stable_sort:
  assumes "distinct (map RouteInputData.routeId routes)"
  shows
    "(let res = calculateMultipleRoutesSafety routes env;
          n = length routes;
          risk = (\<lambda>k. totalRawRisk (riskFactors (res ! k)))
      in length res = n
       \<and> map SafetyResult.routeId res = map RouteInputData.routeId routes
       \<and> map riskFactors res = map (\<lambda>r. fst (calculateRawRiskScore r env)) routes
       \<and> mset (map rank res) = mset (map int [1..<n + 1])
       \<and> (\<forall>j<n. \<forall>k<n. rank (res ! j) < rank (res ! k)
              \<longleftrightarrow> risk j < risk k \<or> (risk j = risk k \<and> j < k))
       \<and> (\<forall>j<n. \<forall>k<n. rank (res ! j) \<le> rank (res ! k) \<longrightarrow> risk j \<le> risk k)
       \<and> (\<forall>j<n. \<forall>k<n. rank (res ! j) = 1 \<longrightarrow> risk j \<le> risk k))
     \<and> calculateMultipleRoutesSafety [] env = []"
proof -
  define res where "res = calculateMultipleRoutesSafety routes env"
  define n where "n = length routes"
  define risk where "risk = (\<lambda>k. totalRawRisk (riskFactors (res ! k)))"
  let ?rs = "routeRisksOf routes env"
  have len: "length res = n"
    by (simp add: res_def n_def results_length)
  have ids: "map SafetyResult.routeId res = map RouteInputData.routeId routes"
    by (rule nth_equalityI)
      (simp_all add: res_def results_length results_nth scoreOne_routeId routeRisksOf_nth)
  have rfs: "map riskFactors res = map (\<lambda>r. fst (calculateRawRiskScore r env)) routes"
    by (rule nth_equalityI)
      (simp_all add: res_def results_length results_nth scoreOne_riskFactors routeRisksOf_nth)
  have perm: "mset (map rank res) = mset (map int [1..<n + 1])"
    unfolding res_def n_def by (rule rank_permutation [OF assms])
  have dr: "distinct ?rs" using assms by (rule routeRisksOf_distinct)
  have rk: "risk k = totalRisk_of (?rs ! k)" if "k < n" for k
    using that by (simp add: risk_def res_def n_def results_risk)
  have ix: "index_of ?rs (?rs ! k) = k" if "k < n" for k
    using that by (simp add: n_def index_of_nth [OF dr] routeRisksOf_length)
  have ord: "rank (res ! j) < rank (res ! k)
      \<longleftrightarrow> risk j < risk k \<or> (risk j = risk k \<and> j < k)" if "j < n" and "k < n" for j k
  proof -
    have "rank (res ! j) < rank (res ! k)
        \<longleftrightarrow> stable_before totalRisk_of ?rs (?rs ! j) (?rs ! k)"
      using that unfolding res_def n_def by (intro rank_order [OF assms])
    then show ?thesis
      by (simp add: stable_before_def rk [OF that(1)] rk [OF that(2)]
          ix [OF that(1)] ix [OF that(2)])
  qed
  have mono: "risk j \<le> risk k" if "j < n" and "k < n" and "rank (res ! j) \<le> rank (res ! k)"
    for j k
  proof (cases "rank (res ! j) < rank (res ! k)")
    case True
    then show ?thesis using ord [OF that(1,2)] by auto
  next
    case False
    then have "\<not> rank (res ! k) < rank (res ! j)" using that(3) by simp
    then have "\<not> risk k < risk j" using ord [OF that(2,1)] by blast
    then show ?thesis by simp
  qed
  have lb: "1 \<le> rank (res ! k)" if "k < n" for k
    using that results_rank_found [of k routes env] by (simp add: res_def n_def)
  have first: "risk j \<le> risk k" if "j < n" and "k < n" and "rank (res ! j) = 1" for j k
    using mono [OF that(1,2)] lb [OF that(2)] that(3) by simp
  have empty: "calculateMultipleRoutesSafety [] env = []"
    by (simp add: calculateMultipleRoutesSafety_def)
  have all: "length res = n
       \<and> map SafetyResult.routeId res = map RouteInputData.routeId routes
       \<and> map riskFactors res = map (\<lambda>r. fst (calculateRawRiskScore r env)) routes
       \<and> mset (map rank res) = mset (map int [1..<n + 1])
       \<and> (\<forall>j<n. \<forall>k<n. rank (res ! j) < rank (res ! k)
              \<longleftrightarrow> risk j < risk k \<or> (risk j = risk k \<and> j < k))
       \<and> (\<forall>j<n. \<forall>k<n. rank (res ! j) \<le> rank (res ! k) \<longrightarrow> risk j \<le> risk k)
       \<and> (\<forall>j<n. \<forall>k<n. rank (res ! j) = 1 \<longrightarrow> risk j \<le> risk k)"
    using len ids rfs perm ord mono first by (intro conjI allI impI) blast+
  show ?thesis
    unfolding Let_def res_def [symmetric] n_def [symmetric]
    using all empty unfolding risk_def by (rule conjI)
qed

section \<open>The batch of three routes\<close>

lemma rawRisk_snd:
  "snd (calculateRawRiskScore route env) =
     fadd (fadd (fadd (fadd (fadd (fadd (fadd
       (fmul (calculateCrimeRisk (case crimeLevel route of None \<Rightarrow> medium | Some c \<Rightarrow> c))
          (crime WEIGHTS))
       (fmul (calculateLightingRisk
                (case lightingLevel route of None \<Rightarrow> partially_lit | Some l \<Rightarrow> l))
          (lighting WEIGHTS)))
       (fmul (calculateTimeRisk (currentHour env)) (time WEIGHTS)))
       (fmul (calculateDistanceRisk (distanceKm route)) (distance WEIGHTS)))
       (fmul (calculateDurationRisk (durationMin route)) (duration WEIGHTS)))
       (fmul (calculateRoadTypeRisk (case roadType route of None \<Rightarrow> residential | Some t \<Rightarrow> t))
          (roadTypeW WEIGHTS)))
       (fmul (calculateWeatherRisk (weatherCondition env)) (weather WEIGHTS)))
       (fmul (calculateTurnRisk (turnCount route)) (turn WEIGHTS))"
  by (simp add: calculateRawRiskScore_def Let_def)

lemmas factor_eval = calculateDistanceRisk_def calculateDurationRisk_def calculateTurnRisk_def
  calculateTimeRisk_def WEIGHTS_def fmul_def fdiv_def fmin_def double_eval

lemma factor_distance_4: "calculateDistanceRisk 4 = 3602879701896397 / 9007199254740992"
  by (simp add: factor_eval)

lemma factor_distance_5: "calculateDistanceRisk 5 = 1 / 2"
  by (simp add: factor_eval)

lemma factor_distance_6: "calculateDistanceRisk 6 = 5404319552844595 / 9007199254740992"
  by (simp add: factor_eval)

lemma factor_duration_15: "calculateDurationRisk 15 = 1 / 2"
  by (simp add: factor_eval)

lemma factor_turn_10: "calculateTurnRisk 10 = 1 / 2"
  by (simp add: factor_eval)

lemma term_crime: "fmul (calculateCrimeRisk medium) (crime WEIGHTS) = 1 / 8"
  by (simp add: factor_eval)

lemma term_lighting: "fmul (calculateLightingRisk partially_lit) (lighting WEIGHTS) = 5404319552844595 / 72057594037927936"
  by (simp add: factor_eval)

lemma term_time: "fmul (calculateTimeRisk 20) (time WEIGHTS) = 3242591731706757 / 36028797018963968"
  by (simp add: factor_eval)

lemma term_distance_4: "fmul (calculateDistanceRisk 4) (distance WEIGHTS) = 1441151880758559 / 36028797018963968"
  by (simp add: factor_eval)

lemma term_distance_5: "fmul (calculateDistanceRisk 5) (distance WEIGHTS) = 3602879701896397 / 72057594037927936"
  by (simp add: factor_eval)

lemma term_distance_6: "fmul (calculateDistanceRisk 6) (distance WEIGHTS) = 1080863910568919 / 18014398509481984"
  by (simp add: factor_eval)

lemma term_duration: "fmul (calculateDurationRisk 15) (duration WEIGHTS) = 3602879701896397 / 72057594037927936"
  by (simp add: factor_eval)

lemma term_roadType: "fmul (calculateRoadTypeRisk residential) (roadTypeW WEIGHTS) = 1080863910568919 / 18014398509481984"
  by (simp add: factor_eval)

lemma term_weather: "fmul (calculateWeatherRisk cloudy) (weather WEIGHTS) = 1080863910568919 / 36028797018963968"
  by (simp add: factor_eval)

lemma term_turn: "fmul (calculateTurnRisk 10) (turn WEIGHTS) = 3602879701896397 / 144115188075855872"
  by (simp add: factor_eval)

lemmas term_eval = term_crime term_lighting term_time term_distance_4 term_distance_5
  term_distance_6 term_duration term_roadType term_weather term_turn

lemma sum_lighting: "fadd (1 / 8) (5404319552844595 / 72057594037927936) = 3602879701896397 / 18014398509481984"
  by (simp add: fadd_def double_eval)

lemma sum_time: "fadd (3602879701896397 / 18014398509481984) (3242591731706757 / 36028797018963968) = 326510972984361 / 1125899906842624"
  by (simp add: fadd_def double_eval)

lemma sum_distance_4: "fadd (326510972984361 / 1125899906842624) (1441151880758559 / 36028797018963968) = 185773484629033 / 562949953421312"
  by (simp add: fadd_def double_eval)

lemma sum_duration_4: "fadd (185773484629033 / 562949953421312) (3602879701896397 / 72057594037927936) = 6845471433603155 / 18014398509481984"
  by (simp add: fadd_def double_eval)

lemma sum_roadType_4: "fadd (6845471433603155 / 18014398509481984) (1080863910568919 / 18014398509481984) = 3963167672086037 / 9007199254740992"
  by (simp add: fadd_def double_eval)

lemma sum_weather_4: "fadd (3963167672086037 / 9007199254740992) (1080863910568919 / 36028797018963968) = 4233383649728267 / 9007199254740992"
  by (simp add: fadd_def double_eval)

lemma sum_turn_4: "fadd (4233383649728267 / 9007199254740992) (3602879701896397 / 144115188075855872) = 557320453887099 / 1125899906842624"
  by (simp add: fadd_def double_eval)

lemma sum_distance_5: "fadd (326510972984361 / 1125899906842624) (3602879701896397 / 72057594037927936) = 6124895493223875 / 18014398509481984"
  by (simp add: fadd_def double_eval)

lemma sum_duration_5: "fadd (6124895493223875 / 18014398509481984) (3602879701896397 / 72057594037927936) = 3512807709348987 / 9007199254740992"
  by (simp add: fadd_def double_eval)

lemma sum_roadType_5: "fadd (3512807709348987 / 9007199254740992) (1080863910568919 / 18014398509481984) = 8106479329266893 / 18014398509481984"
  by (simp add: fadd_def double_eval)

lemma sum_weather_5: "fadd (8106479329266893 / 18014398509481984) (1080863910568919 / 36028797018963968) = 1080863910568919 / 2251799813685248"
  by (simp add: fadd_def double_eval)

lemma sum_turn_5: "fadd (1080863910568919 / 2251799813685248) (3602879701896397 / 144115188075855872) = 4548635623644201 / 9007199254740992"
  by (simp add: fadd_def double_eval)

lemma sum_distance_6: "fadd (326510972984361 / 1125899906842624) (1080863910568919 / 18014398509481984) = 6305039478318695 / 18014398509481984"
  by (simp add: fadd_def double_eval)

lemma sum_duration_6: "fadd (6305039478318695 / 18014398509481984) (3602879701896397 / 72057594037927936) = 3602879701896397 / 9007199254740992"
  by (simp add: fadd_def double_eval)

lemma sum_roadType_6: "fadd (3602879701896397 / 9007199254740992) (1080863910568919 / 18014398509481984) = 8286623314361713 / 18014398509481984"
  by (simp add: fadd_def double_eval)

lemma sum_weather_6: "fadd (8286623314361713 / 18014398509481984) (1080863910568919 / 36028797018963968) = 2206763817411543 / 4503599627370496"
  by (simp add: fadd_def double_eval)

lemma sum_turn_6: "fadd (2206763817411543 / 4503599627370496) (3602879701896397 / 144115188075855872) = 4638707616191611 / 9007199254740992"
  by (simp add: fadd_def double_eval)

lemmas sum_eval =  sum_lighting sum_time sum_distance_4 sum_duration_4 sum_roadType_4 sum_weather_4 sum_turn_4
  sum_distance_5 sum_duration_5 sum_roadType_5 sum_weather_5 sum_turn_5 sum_distance_6
  sum_duration_6 sum_roadType_6 sum_weather_6 sum_turn_6

lemma total_a:
  "snd (calculateRawRiskScore
     \<lparr>RouteInputData.routeId = i, distanceKm = 4, durationMin = 15, turnCount = 10,
          roadType = None, crimeLevel = None, lightingLevel = None\<rparr>
     \<lparr>currentHour = 20, weatherCondition = cloudy\<rparr>) = 557320453887099 / 1125899906842624"
  unfolding rawRisk_snd RouteInputData.select_convs EnvironmentData.select_convs option.case
    term_eval sum_eval ..

lemma total_b:
  "snd (calculateRawRiskScore
     \<lparr>RouteInputData.routeId = i, distanceKm = 5, durationMin = 15, turnCount = 10,
          roadType = None, crimeLevel = None, lightingLevel = None\<rparr>
     \<lparr>currentHour = 20, weatherCondition = cloudy\<rparr>) = 4548635623644201 / 9007199254740992"
  unfolding rawRisk_snd RouteInputData.select_convs EnvironmentData.select_convs option.case
    term_eval sum_eval ..

lemma total_c:
  "snd (calculateRawRiskScore
     \<lparr>RouteInputData.routeId = i, distanceKm = 6, durationMin = 15, turnCount = 10,
          roadType = None, crimeLevel = None, lightingLevel = None\<rparr>
     \<lparr>currentHour = 20, weatherCondition = cloudy\<rparr>) = 4638707616191611 / 9007199254740992"
  unfolding rawRisk_snd RouteInputData.select_convs EnvironmentData.select_convs option.case
    term_eval sum_eval ..

lemma three_routes_length: "length three_routes = 3"
  by (simp add: three_routes_def)

lemma three_routes_distinct: "distinct (map RouteInputData.routeId three_routes)"
  by (simp add: three_routes_def)

lemma three_routes_risks:
  "map totalRisk_of (routeRisksOf three_routes evening)
     = [557320453887099 / 1125899906842624, 4548635623644201 / 9007199254740992,
        4638707616191611 / 9007199254740992]"
  unfolding routeRisksOf_def three_routes_def evening_def list.map totalRisk_of_def snd_conv
    total_a total_b total_c ..

lemma two_routes_risks:
  "map totalRisk_of (routeRisksOf (take 2 three_routes) evening)
     = [557320453887099 / 1125899906842624, 4548635623644201 / 9007199254740992]"
proof -
  have t: "take 2 three_routes =
     [\<lparr>RouteInputData.routeId = ''a'', distanceKm = 4, durationMin = 15, turnCount = 10,
       roadType = None, crimeLevel = None, lightingLevel = None\<rparr>,
      \<lparr>RouteInputData.routeId = ''b'', distanceKm = 5, durationMin = 15, turnCount = 10,
       roadType = None, crimeLevel = None, lightingLevel = None\<rparr>]"
    by (simp add: three_routes_def)
  show ?thesis
    unfolding t routeRisksOf_def evening_def list.map totalRisk_of_def snd_conv total_a total_b ..
qed

lemma one_route_risks:
  "map totalRisk_of (routeRisksOf (take 1 three_routes) evening)
     = [557320453887099 / 1125899906842624]"
proof -
  have t: "take 1 three_routes =
     [\<lparr>RouteInputData.routeId = ''a'', distanceKm = 4, durationMin = 15, turnCount = 10,
       roadType = None, crimeLevel = None, lightingLevel = None\<rparr>]"
    by (simp add: three_routes_def)
  show ?thesis
    unfolding t routeRisksOf_def evening_def list.map totalRisk_of_def snd_conv total_a ..
qed

lemma sort_key_sorted_id:
  assumes "sorted (map f xs)"
  shows "sort_key f xs = xs"
  using assms by (induction xs) (auto simp add: insort_is_Cons)

text \<open>
  In a batch that is listed by ascending risk already, the ranks count the positions, and the
  score at a position is the relative score of its rank.
\<close>

lemma sorted_batch_rank:
  assumes "distinct (map RouteInputData.routeId routes)"
    and "sorted (map totalRisk_of (routeRisksOf routes env))"
    and "j < length routes"
  shows "rank (calculateMultipleRoutesSafety routes env ! j) = int j + 1"
proof -
  have s: "sort_key totalRisk_of (routeRisksOf routes env) = routeRisksOf routes env"
    using assms(2) by (rule sort_key_sorted_id)
  have j: "j < length (routeRisksOf routes env)"
    using assms(3) by (simp add: routeRisksOf_length)
  show ?thesis
    unfolding rank_index [OF assms(1,3)] s
    by (simp add: index_of_nth [OF routeRisksOf_distinct [OF assms(1)] j])
qed

lemma sorted_batch_score:
  assumes "distinct (map RouteInputData.routeId routes)"
    and "sorted (map totalRisk_of (routeRisksOf routes env))"
    and "j < length routes"
  shows "safetyScore (calculateMultipleRoutesSafety routes env ! j)
         = calculateRelativeScore (int j + 1) (int (length routes))
             (map totalRisk_of (routeRisksOf routes env) ! j)
             (map totalRisk_of (routeRisksOf routes env))"
proof -
  have "safetyScore (calculateMultipleRoutesSafety routes env ! j)
      = calculateRelativeScore (rank (calculateMultipleRoutesSafety routes env ! j))
          (int (length routes)) (totalRisk_of (routeRisksOf routes env ! j))
          (map totalRisk_of (routeRisksOf routes env))"
    by (simp add: results_nth [OF assms(3)] scoreOne_safetyScore totalRisk_of_def)
  then show ?thesis
    unfolding sorted_batch_rank [OF assms] using assms(3) by (simp add: routeRisksOf_length)
qed

lemma three_routes_sorted: "sorted (map totalRisk_of (routeRisksOf three_routes evening))"
  unfolding three_routes_risks by simp

lemma three_routes_ranks:
  "rank (calculateMultipleRoutesSafety three_routes evening ! 0) = 1"
  "rank (calculateMultipleRoutesSafety three_routes evening ! 1) = 2"
  "rank (calculateMultipleRoutesSafety three_routes evening ! 2) = 3"
  by (simp_all add: sorted_batch_rank [OF three_routes_distinct three_routes_sorted]
      three_routes_length)

text \<open>
  The relative score, one operation after the other.
\<close>

lemma relative_eval:
  assumes "n \<noteq> 1" and "map double (x # xs) = x # xs"
    and "fold min xs x = mn" and "fold max xs x = mx"
    and "lo = (if r = 1 then 75 else if r = n then 42 else 58)"
    and "hi = (if r = 1 then 92 else if r = n then 57 else 74)"
    and "fsub mx mn = sp"
    and "pos = (if flt sp (1 / 100) then 7 / 10 else fsub 1 (fdiv (fsub t mn) sp))"
    and "fsub hi lo = w" and "fmul w pos = m" and "fadd lo m = s" and "js_round s = k"
  shows "calculateRelativeScore r n t (x # xs) = k"
proof -
  have a: "min_score (if r = 1 then safest RELATIVE_SCORE_RANGES
                      else if r = n then riskiest RELATIVE_SCORE_RANGES
                      else moderate RELATIVE_SCORE_RANGES) = lo"
    by (simp add: assms(5) RELATIVE_SCORE_RANGES_def)
  have b: "max_score (if r = 1 then safest RELATIVE_SCORE_RANGES
                      else if r = n then riskiest RELATIVE_SCORE_RANGES
                      else moderate RELATIVE_SCORE_RANGES) = hi"
    by (simp add: assms(6) RELATIVE_SCORE_RANGES_def)
  show ?thesis
    unfolding calculateRelativeScore_def assms(2) list.case Let_def assms(3) assms(4) assms(7)
      a b assms(8) [symmetric] assms(9) assms(10) assms(11) assms(12)
    using assms(1) by simp
qed

lemma single_eval:
  assumes "fsub 1 t = d" and "fmul d 100 = m" and "fadd m 15 = s"
    and "fmax 55 (fmin 90 s) = c" and "js_round c = k"
  shows "calculateRelativeScore r 1 t risks = k"
  unfolding calculateRelativeScore_def assms by simp

lemmas score_eval = fsub_def fdiv_def fmul_def fadd_def fmin_def fmax_def flt_def js_round_def
  double_eval

lemma score_three_a:
  "calculateRelativeScore 1 3 (557320453887099 / 1125899906842624)
     [557320453887099 / 1125899906842624, 4548635623644201 / 9007199254740992, 4638707616191611 / 9007199254740992] = 92"
  by (rule relative_eval [where mn = "557320453887099 / 1125899906842624" and mx = "4638707616191611 / 9007199254740992"
        and lo = 75 and hi = 92 and sp = "180143985094819 / 9007199254740992"
        and pos = "1" and w = 17
        and m = "17" and s = "92"])
    (simp_all add: score_eval)

lemma score_three_b:
  "calculateRelativeScore 2 3 (4548635623644201 / 9007199254740992)
     [557320453887099 / 1125899906842624, 4548635623644201 / 9007199254740992, 4638707616191611 / 9007199254740992] = 66"
  by (rule relative_eval [where mn = "557320453887099 / 1125899906842624" and mx = "4638707616191611 / 9007199254740992"
        and lo = 58 and hi = 74 and sp = "180143985094819 / 9007199254740992"
        and pos = "4503599627370521 / 9007199254740992" and w = 16
        and m = "4503599627370521 / 562949953421312" and s = "4644337115725827 / 70368744177664"])
    (simp_all add: score_eval)

lemma score_three_c:
  "calculateRelativeScore 3 3 (4638707616191611 / 9007199254740992)
     [557320453887099 / 1125899906842624, 4548635623644201 / 9007199254740992, 4638707616191611 / 9007199254740992] = 42"
  by (rule relative_eval [where mn = "557320453887099 / 1125899906842624" and mx = "4638707616191611 / 9007199254740992"
        and lo = 42 and hi = 57 and sp = "180143985094819 / 9007199254740992"
        and pos = "0" and w = 15
        and m = "0" and s = "42"])
    (simp_all add: score_eval)

lemma score_two_a:
  "calculateRelativeScore 1 2 (557320453887099 / 1125899906842624)
     [557320453887099 / 1125899906842624, 4548635623644201 / 9007199254740992] = 87"
  by (rule relative_eval [where mn = "557320453887099 / 1125899906842624" and mx = "4548635623644201 / 9007199254740992"
        and lo = 75 and hi = 92 and sp = "90071992547409 / 9007199254740992"
        and pos = "7 / 10" and w = 17
        and m = "1674776111428403 / 140737488355328" and s = "3057521934519501 / 35184372088832"])
    (simp_all add: score_eval)

lemma score_two_b:
  "calculateRelativeScore 2 2 (4548635623644201 / 9007199254740992)
     [557320453887099 / 1125899906842624, 4548635623644201 / 9007199254740992] = 53"
  by (rule relative_eval [where mn = "557320453887099 / 1125899906842624" and mx = "4548635623644201 / 9007199254740992"
        and lo = 42 and hi = 57 and sp = "90071992547409 / 9007199254740992"
        and pos = "7 / 10" and w = 15
        and m = "21 / 2" and s = "105 / 2"])
    (simp_all add: score_eval)

lemma score_one_a:
  "calculateRelativeScore 1 1 (557320453887099 / 1125899906842624)
     [557320453887099 / 1125899906842624] = 65"
  by (rule single_eval [where d = "568579452955525 / 1125899906842624" and m = "3553621580972031 / 70368744177664"
        and s = "4609152743636991 / 70368744177664" and c = "4609152743636991 / 70368744177664"])
    (simp_all add: score_eval)


text \<open>
  The scores of the three routes, of the first two of them, whose risks are closer than 0.01,
  and of the first alone.
\<close>

lemma three_routes_scores:
  "safetyScore (calculateMultipleRoutesSafety three_routes evening ! 0) = 92"
  "safetyScore (calculateMultipleRoutesSafety three_routes evening ! 1) = 66"
  "safetyScore (calculateMultipleRoutesSafety three_routes evening ! 2) = 42"
proof -
  note s = sorted_batch_score [OF three_routes_distinct three_routes_sorted,
      unfolded three_routes_risks three_routes_length]
  have "safetyScore (calculateMultipleRoutesSafety three_routes evening ! 0)
      = calculateRelativeScore 1 3 (557320453887099 / 1125899906842624)
          [557320453887099 / 1125899906842624, 4548635623644201 / 9007199254740992,
           4638707616191611 / 9007199254740992]"
    using s [of 0] by simp
  then show "safetyScore (calculateMultipleRoutesSafety three_routes evening ! 0) = 92"
    unfolding score_three_a .
  have "safetyScore (calculateMultipleRoutesSafety three_routes evening ! 1)
      = calculateRelativeScore 2 3 (4548635623644201 / 9007199254740992)
          [557320453887099 / 1125899906842624, 4548635623644201 / 9007199254740992,
           4638707616191611 / 9007199254740992]"
    using s [of 1] by simp
  then show "safetyScore (calculateMultipleRoutesSafety three_routes evening ! 1) = 66"
    unfolding score_three_b .
  have "safetyScore (calculateMultipleRoutesSafety three_routes evening ! 2)
      = calculateRelativeScore 3 3 (4638707616191611 / 9007199254740992)
          [557320453887099 / 1125899906842624, 4548635623644201 / 9007199254740992,
           4638707616191611 / 9007199254740992]"
    using s [of 2] by simp
  then show "safetyScore (calculateMultipleRoutesSafety three_routes evening ! 2) = 42"
    unfolding score_three_c .
qed

lemma two_routes_scores:
  "safetyScore (calculateMultipleRoutesSafety (take 2 three_routes) evening ! 0) = 87"
  "safetyScore (calculateMultipleRoutesSafety (take 2 three_routes) evening ! 1) = 53"
proof -
  have d: "distinct (map RouteInputData.routeId (take 2 three_routes))"
    by (simp add: three_routes_def)
  have o: "sorted (map totalRisk_of (routeRisksOf (take 2 three_routes) evening))"
    unfolding two_routes_risks by simp
  have l: "length (take 2 three_routes) = 2"
    by (simp add: three_routes_def)
  note s = sorted_batch_score [OF d o, unfolded two_routes_risks l]
  have "safetyScore (calculateMultipleRoutesSafety (take 2 three_routes) evening ! 0)
      = calculateRelativeScore 1 2 (557320453887099 / 1125899906842624)
          [557320453887099 / 1125899906842624, 4548635623644201 / 9007199254740992]"
    using s [of 0] by simp
  then show "safetyScore (calculateMultipleRoutesSafety (take 2 three_routes) evening ! 0) = 87"
    unfolding score_two_a .
  have "safetyScore (calculateMultipleRoutesSafety (take 2 three_routes) evening ! 1)
      = calculateRelativeScore 2 2 (4548635623644201 / 9007199254740992)
          [557320453887099 / 1125899906842624, 4548635623644201 / 9007199254740992]"
    using s [of 1] by simp
  then show "safetyScore (calculateMultipleRoutesSafety (take 2 three_routes) evening ! 1) = 53"
    unfolding score_two_b .
qed

lemma one_route_score:
  "safetyScore (calculateMultipleRoutesSafety (take 1 three_routes) evening ! 0) = 65"
proof -
  have d: "distinct (map RouteInputData.routeId (take 1 three_routes))"
    by (simp add: three_routes_def)
  have o: "sorted (map totalRisk_of (routeRisksOf (take 1 three_routes) evening))"
    unfolding one_route_risks by simp
  have l: "length (take 1 three_routes) = 1"
    by (simp add: three_routes_def)
  note s = sorted_batch_score [OF d o, unfolded one_route_risks l]
  have "safetyScore (calculateMultipleRoutesSafety (take 1 three_routes) evening ! 0)
      = calculateRelativeScore 1 1 (557320453887099 / 1125899906842624)
          [557320453887099 / 1125899906842624]"
    using s [of 0] by simp
  then show ?thesis
    unfolding score_one_a .
qed

theorem relative_score_bands_witness:
  "(1::nat) < length three_routes
   \<and> rank (calculateMultipleRoutesSafety three_routes evening ! 1) = 2
   \<and> safetyScore (calculateMultipleRoutesSafety three_routes evening ! 1) = 66
   \<and> 58 \<le> safetyScore (calculateMultipleRoutesSafety three_routes evening ! 1)
   \<and> safetyScore (calculateMultipleRoutesSafety three_routes evening ! 1) \<le> 74
   \<and> safetyCategory (calculateMultipleRoutesSafety three_routes evening ! 1) = Moderate_Option
   \<and> (0::nat) < length (take 1 three_routes)
   \<and> safetyScore (calculateMultipleRoutesSafety (take 1 three_routes) evening ! 0) = 65
   \<and> 55 \<le> safetyScore (calculateMultipleRoutesSafety (take 1 three_routes) evening ! 0)
   \<and> safetyScore (calculateMultipleRoutesSafety (take 1 three_routes) evening ! 0) \<le> 90
   \<and> safetyCategory (calculateMultipleRoutesSafety (take 1 three_routes) evening ! 0)
       = Safest_Option"
proof -
  have h: "(1::nat) < length three_routes" by (simp add: three_routes_length)
  note t = relative_score_bands [OF h, of evening, unfolded Let_def three_routes_length]
  have n: "(1::int) < int 3" by simp
  note m = t [THEN conjunct2, THEN conjunct2, THEN conjunct2, THEN mp, OF n]
  have r: "rank (calculateMultipleRoutesSafety three_routes evening ! 1) \<noteq> 1
      \<and> rank (calculateMultipleRoutesSafety three_routes evening ! 1) \<noteq> int 3"
    unfolding three_routes_ranks by simp
  have b: "58 \<le> safetyScore (calculateMultipleRoutesSafety three_routes evening ! 1)
      \<and> safetyScore (calculateMultipleRoutesSafety three_routes evening ! 1) \<le> 74
      \<and> safetyCategory (calculateMultipleRoutesSafety three_routes evening ! 1) = Moderate_Option"
    by (rule m [THEN conjunct2, THEN conjunct2, THEN conjunct2, THEN conjunct2,
          THEN conjunct2, THEN conjunct2, THEN conjunct2, THEN mp, OF r])
  have l: "length (take 1 three_routes) = 1" by (simp add: three_routes_def)
  have g: "(0::nat) < length (take 1 three_routes)" unfolding l by simp
  note u = relative_score_bands [OF g, of evening, unfolded Let_def l]
  have o: "int 1 = 1" by simp
  note v = u [THEN conjunct2, THEN conjunct2, THEN conjunct1, THEN mp, OF o]
  have c: "55 \<le> safetyScore (calculateMultipleRoutesSafety (take 1 three_routes) evening ! 0)
      \<and> safetyScore (calculateMultipleRoutesSafety (take 1 three_routes) evening ! 0) \<le> 90
      \<and> safetyCategory (calculateMultipleRoutesSafety (take 1 three_routes) evening ! 0)
          = Safest_Option"
    by (rule v [THEN conjunct2])
  show ?thesis
    by (rule conjI [OF h conjI [OF three_routes_ranks(2) conjI [OF three_routes_scores(2)
          conjI [OF b [THEN conjunct1] conjI [OF b [THEN conjunct2, THEN conjunct1]
          conjI [OF b [THEN conjunct2, THEN conjunct2] conjI [OF g conjI [OF one_route_score
          c]]]]]]]])
qed

theorem ranks_stable_sort_witness:
  "distinct (map RouteInputData.routeId three_routes)
   \<and> length (calculateMultipleRoutesSafety three_routes evening) = 3
   \<and> map SafetyResult.routeId (calculateMultipleRoutesSafety three_routes evening)
       = [''a'', ''b'', ''c'']
   \<and> mset (map rank (calculateMultipleRoutesSafety three_routes evening)) = mset [1, 2, 3]"
proof -
  note t = ranks_stable_sort [OF three_routes_distinct, of evening,
      unfolded Let_def three_routes_length]
  have a: "length (calculateMultipleRoutesSafety three_routes evening) = 3"
    by (rule t [THEN conjunct1, THEN conjunct1])
  have b: "map SafetyResult.routeId (calculateMultipleRoutesSafety three_routes evening)
      = map RouteInputData.routeId three_routes"
    by (rule t [THEN conjunct1, THEN conjunct2, THEN conjunct1])
  have c: "mset (map rank (calculateMultipleRoutesSafety three_routes evening))
      = mset (map int [1..<3 + 1])"
    by (rule t [THEN conjunct1, THEN conjunct2, THEN conjunct2, THEN conjunct2, THEN conjunct1])
  have d: "map int [1..<3 + 1] = [1, 2, 3]"
    by (simp add: upt_rec)
  have e: "map RouteInputData.routeId three_routes = [''a'', ''b'', ''c'']"
    by (simp add: three_routes_def)
  show ?thesis
    using three_routes_distinct a b c unfolding d e by (intro conjI)
qed

section \<open>Highlights\<close>

lemma factor_time_20: "calculateTimeRisk 20 = 6 / 10"
  by (simp add: calculateTimeRisk_def)

lemma mid_factors:
  "fst (calculateRawRiskScore
     \<lparr>RouteInputData.routeId = i, distanceKm = 5, durationMin = 15, turnCount = 10,
          roadType = None, crimeLevel = None, lightingLevel = None\<rparr>
     \<lparr>currentHour = 20, weatherCondition = cloudy\<rparr>)
   = \<lparr>distanceRisk = 1 / 2, durationRisk = 1 / 2, turnRisk = 1 / 2, timeRisk = 6 / 10,
       weatherRisk = 3 / 10, crimeRisk = 5 / 10, lightingRisk = 5 / 10, roadTypeRisk = 6 / 10,
       totalRawRisk = 4548635623644201 / 9007199254740992\<rparr>"
  unfolding rawRisk_fields RouteInputData.select_convs EnvironmentData.select_convs option.case
    total_b factor_distance_5 factor_duration_15 factor_turn_10 factor_time_20
    calculateWeatherRisk.simps calculateCrimeRisk.simps calculateLightingRisk.simps
    calculateRoadTypeRisk.simps ..

lemma mid_thresholds:
  "fle (5 / 10) (3 / 10) = False" "fle (6 / 10) (3 / 10) = False"
  "fle (6 / 10) (4 / 10) = False" "fle (3 / 10) (2 / 10) = False"
  "fle (1 / 2) (3 / 10) = False" "fle (7 / 10) (5 / 10) = False"
  "fle (8 / 10) (6 / 10) = False" "fle (7 / 10) (6 / 10) = False"
  "fle (7 / 10) (3 / 10) = False"
  by (simp_all add: fle_def double_eval)

lemma mid_highlights:
  "generateHighlights
     \<lparr>distanceRisk = 1 / 2, durationRisk = 1 / 2, turnRisk = 1 / 2, timeRisk = 6 / 10,
       weatherRisk = 3 / 10, crimeRisk = 5 / 10, lightingRisk = 5 / 10, roadTypeRisk = 6 / 10,
       totalRawRisk = t\<rparr> 2 3 evening
   = [''Moderate traffic expected'', ''Standard route conditions'']"
  unfolding generateHighlights_def RiskFactors.select_convs mid_thresholds
  by (simp add: push_if_def Let_def evening_def)

lemma generateHighlights_at_most_5: "length (generateHighlights rf r n env) \<le> 5"
  by (simp add: generateHighlights_def Let_def)

text \<open>
  C9. The claim asks for at least 3 and at most 5 highlights. A middle-ranked route whose
  factors cross no threshold gets no highlight of its own, and the padding adds two strings
  at most: the list has 2 entries. Here the second of the three routes, of rank 2.
\<close>

theorem generateHighlights_two_entries:
  "rank (calculateMultipleRoutesSafety three_routes evening ! 1) = 2
   \<and> highlights (calculateMultipleRoutesSafety three_routes evening ! 1)
       = [''Moderate traffic expected'', ''Standard route conditions'']
   \<and> length (highlights (calculateMultipleRoutesSafety three_routes evening ! 1)) = 2"
proof -
  let ?r = "calculateMultipleRoutesSafety three_routes evening ! 1"
  have i: "(1::nat) < length three_routes" by (simp add: three_routes_length)
  have rf: "fst (snd (routeRisksOf three_routes evening ! 1))
      = \<lparr>distanceRisk = 1 / 2, durationRisk = 1 / 2, turnRisk = 1 / 2, timeRisk = 6 / 10,
         weatherRisk = 3 / 10, crimeRisk = 5 / 10, lightingRisk = 5 / 10, roadTypeRisk = 6 / 10,
         totalRawRisk = 4548635623644201 / 9007199254740992\<rparr>"
    unfolding routeRisksOf_nth [OF i]
    unfolding three_routes_def evening_def nth_Cons_Suc nth_Cons_0 One_nat_def snd_conv
      mid_factors ..
  have "highlights ?r = generateHighlights (fst (snd (routeRisksOf three_routes evening ! 1)))
      (rank ?r) 3 evening"
    unfolding results_nth [OF i] scoreOne_highlights three_routes_length by simp
  then have h: "highlights ?r = [''Moderate traffic expected'', ''Standard route conditions'']"
    unfolding rf three_routes_ranks mid_highlights .
  show ?thesis
    unfolding h three_routes_ranks by simp
qed

end
